theory Spec2Isabelle
  imports Complex_Main "HOL-Library.Multiset"
begin

section \<open>Data model of the psychological game engine (backend/engine.py)\<close>

text \<open>
  Python floats are modelled as \<^typ>\<open>real\<close>: the properties below are about ordering and
  clamping, not about rounding. Dictionaries whose iteration order matters
  (\<open>GameState.agents\<close>, the votes and their tally) are association lists in insertion
  order; the per-agent score dictionaries are maps. The values of \<open>random.random()\<close> are a
  stream \<open>rnd\<close> read from a position \<open>k\<close> that each function returns advanced; the reading
  of the clock behind a timestamp is the argument \<open>now\<close>. A lookup \<open>agents[name]\<close> that
  can raise returns a sum with the \<open>KeyError\<close> on the left. Printing, the language model
  behind \<open>llm_interface\<close> and the broadcasts to the clients are not modelled.
\<close>

datatype Role = VILLAGER | WOLF

datatype GamePhase = DAY_DISCUSSION | VOTING | NIGHT_ACTION | GAME_OVER

record EmotionalState =
  anger :: real
  fear :: real
  confidence :: real

record MemoryEvent =
  event_type :: string
  target :: string
  source :: string
  impact :: real
  turn :: nat
  timestamp :: string

record Agent =
  name :: string
  role :: Role
  personality :: string
  is_human :: bool
  trust_scores :: "string \<rightharpoonup> real"
  suspicion_scores :: "string \<rightharpoonup> real"
  emotional_state :: EmotionalState
  memory_log :: "MemoryEvent list"
  alive :: bool
  vote_count :: nat
  influence :: real

record GameState =
  agents :: "(string \<times> Agent) list"
  phase :: GamePhase
  day :: int
  game_turn :: nat
  vote_results :: "(string \<times> nat) list"
  night_kill :: "string option"
  winner :: "string option"
  human_player :: string

text \<open>\<open>Config.NUM_DAYS\<close>, \<open>SUSPICION_WEIGHT\<close>, \<open>TRUST_WEIGHT\<close>, \<open>ANGER_BIAS\<close>.\<close>

definition NUM_DAYS :: int where "NUM_DAYS = 5"
definition SUSPICION_WEIGHT :: real where "SUSPICION_WEIGHT = 1.5"
definition TRUST_WEIGHT :: real where "TRUST_WEIGHT = 1.0"
definition ANGER_BIAS :: real where "ANGER_BIAS = 0.5"

text \<open>\<open>d.get(k, default)\<close> on a dictionary.\<close>

definition dict_get :: "('k \<rightharpoonup> 'v) \<Rightarrow> 'k \<Rightarrow> 'v \<Rightarrow> 'v" where
  "dict_get d k dflt = (case d k of None \<Rightarrow> dflt | Some v \<Rightarrow> v)"

section \<open>Agent.update_psychology\<close>

text \<open>The event appended to the log; \<open>turn\<close> is the length of the log before the append.\<close>

definition new_event :: "Agent \<Rightarrow> string \<Rightarrow> string \<Rightarrow> string \<Rightarrow> real \<Rightarrow> string \<Rightarrow> MemoryEvent" where
  "new_event self etype src tgt imp now =
     \<lparr>event_type = etype, target = tgt, source = src, impact = imp,
      turn = length (memory_log self), timestamp = now\<rparr>"

text \<open>\<open>self.memory_log.append(event)\<close>, then \<open>self.memory_log[-15:]\<close> when longer than 20.\<close>

definition remember :: "MemoryEvent list \<Rightarrow> MemoryEvent \<Rightarrow> MemoryEvent list" where
  "remember mlog e =
     (let log1 = mlog @ [e]
      in if length log1 > 20 then drop (length log1 - 15) log1 else log1)"

text \<open>The \<open>if\<close>/\<open>elif\<close> chain on the event type; an unlisted type falls through it.\<close>

definition apply_effect :: "Agent \<Rightarrow> string \<Rightarrow> string \<Rightarrow> string \<Rightarrow> real \<Rightarrow> Agent" where
  "apply_effect self etype src tgt imp =
     (let es = emotional_state self in
      if etype = ''accused'' then
        self\<lparr>emotional_state := es\<lparr>anger := anger es + imp * 0.3\<rparr>,
             suspicion_scores := (suspicion_scores self)
               (src \<mapsto> min 1 (dict_get (suspicion_scores self) src 0 + imp * 0.2))\<rparr>
      else if etype = ''defended'' then
        self\<lparr>trust_scores := (trust_scores self)
               (src \<mapsto> min 1 (dict_get (trust_scores self) src 0 + imp * 0.2))\<rparr>
      else if etype = ''voted'' then
        self\<lparr>emotional_state := es\<lparr>anger := anger es + imp * 0.5,
                                     confidence := max 0.1 (confidence es - 0.1)\<rparr>\<rparr>
      else if etype = ''killed'' then
        self\<lparr>emotional_state := es\<lparr>fear := fear es + imp * 0.4\<rparr>\<rparr>
      else if etype = ''rumor'' then
        (if imp > 0 then
           self\<lparr>suspicion_scores := (suspicion_scores self)
               (tgt \<mapsto> min 1 (dict_get (suspicion_scores self) tgt 0 + imp * 0.15))\<rparr>
         else
           self\<lparr>trust_scores := (trust_scores self)
               (tgt \<mapsto> min 1 (dict_get (trust_scores self) tgt 0 + \<bar>imp\<bar> * 0.15))\<rparr>)
      else self)"

text \<open>The three closing assignments: only \<open>confidence\<close> gets a lower bound.\<close>

definition clamp_emotions :: "EmotionalState \<Rightarrow> EmotionalState" where
  "clamp_emotions es =
     es\<lparr>fear := min 1 (fear es), anger := min 1 (anger es),
        confidence := max 0 (min 1 (confidence es))\<rparr>"

definition update_psychology :: "Agent \<Rightarrow> string \<Rightarrow> string \<Rightarrow> string \<Rightarrow> real \<Rightarrow> string \<Rightarrow> Agent" where
  "update_psychology self etype src tgt imp now =
     (let self1 = self\<lparr>memory_log := remember (memory_log self) (new_event self etype src tgt imp now)\<rparr>;
          self2 = apply_effect self1 etype src tgt imp
      in self2\<lparr>emotional_state := clamp_emotions (emotional_state self2)\<rparr>)"

section \<open>GameState.check_game_end\<close>

definition get_alive_players :: "GameState \<Rightarrow> string list" where
  "get_alive_players g = map fst (filter (\<lambda>(n, a). alive a) (agents g))"

definition get_wolf_count :: "GameState \<Rightarrow> nat" where
  "get_wolf_count g = length (filter (\<lambda>(n, a). role a = WOLF \<and> alive a) (agents g))"

definition get_villager_count :: "GameState \<Rightarrow> nat" where
  "get_villager_count g = length (filter (\<lambda>(n, a). role a = VILLAGER \<and> alive a) (agents g))"

definition check_game_end :: "GameState \<Rightarrow> bool \<times> GameState" where
  "check_game_end g =
     (let wolves = get_wolf_count g; villagers = get_villager_count g in
      if wolves = 0 then (True, g\<lparr>winner := Some ''villagers'', phase := GAME_OVER\<rparr>)
      else if wolves \<ge> villagers then (True, g\<lparr>winner := Some ''wolves'', phase := GAME_OVER\<rparr>)
      else if day g > NUM_DAYS then (True, g\<lparr>winner := Some ''wolves'', phase := GAME_OVER\<rparr>)
      else (False, g))"

section \<open>Example states\<close>

definition mk_agent :: "string \<Rightarrow> Role \<Rightarrow> bool \<Rightarrow> Agent" where
  "mk_agent n r h =
     \<lparr>name = n, role = r, personality = [], is_human = h,
      trust_scores = Map.empty(n \<mapsto> 0.2), suspicion_scores = Map.empty(n \<mapsto> 0.2),
      emotional_state = \<lparr>anger = 0, fear = 0, confidence = 0.5\<rparr>,
      memory_log = [], alive = True, vote_count = 0, influence = 1\<rparr>"

definition mk_game :: "(string \<times> Agent) list \<Rightarrow> int \<Rightarrow> GameState" where
  "mk_game ags d =
     \<lparr>agents = ags, phase = DAY_DISCUSSION, day = d, game_turn = 0, vote_results = [],
      night_kill = None, winner = None, human_player = ''Player''\<rparr>"

definition alice :: Agent where
  "alice = mk_agent ''Alice'' VILLAGER False"

definition game_no_wolf :: GameState where
  "game_no_wolf = mk_game [(''Alice'', mk_agent ''Alice'' VILLAGER False),
      (''Player'', mk_agent ''Player'' VILLAGER True)] 1"

definition game_wolf_majority :: GameState where
  "game_wolf_majority = mk_game [(''Alice'', mk_agent ''Alice'' WOLF False),
      (''Player'', mk_agent ''Player'' VILLAGER True)] 1"

definition game_timeout :: GameState where
  "game_timeout = mk_game [(''Alice'', mk_agent ''Alice'' WOLF False),
      (''Bob'', mk_agent ''Bob'' VILLAGER False), (''Player'', mk_agent ''Player'' VILLAGER True)] 6"

definition game_running :: GameState where
  "game_running = mk_game [(''Alice'', mk_agent ''Alice'' WOLF False),
      (''Bob'', mk_agent ''Bob'' VILLAGER False), (''Player'', mk_agent ''Player'' VILLAGER True)] 5"

definition full_log_agent :: Agent where
  "full_log_agent = alice\<lparr>memory_log := map (\<lambda>i. \<lparr>event_type = ''voted'', target = ''Alice'',
      source = ''Bob'', impact = 0.3, turn = i, timestamp = []\<rparr>) [0..<20]\<rparr>"

section \<open>Agent.make_vote_decision\<close>

text \<open>\<open>random.uniform(a, b)\<close> is \<open>a + (b - a) * random()\<close>; \<open>u\<close> is the value of \<open>random()\<close>.\<close>

definition uniform :: "real \<Rightarrow> real \<Rightarrow> real \<Rightarrow> real" where
  "uniform a b u = a + (b - a) * u"

text \<open>\<open>d[k] = v\<close> on an insertion-ordered dictionary: an existing key keeps its place.\<close>

fun dict_set :: "('k \<times> 'v) list \<Rightarrow> 'k \<Rightarrow> 'v \<Rightarrow> ('k \<times> 'v) list" where
  "dict_set [] k v = [(k, v)]"
| "dict_set ((k', v') # d) k v = (if k' = k then (k, v) # d else (k', v') # dict_set d k v)"

text \<open>The score of a candidate before the random factor is added.\<close>

definition base_vote_score :: "Agent \<Rightarrow> string \<Rightarrow> real" where
  "base_vote_score self player =
     (let suspicion = dict_get (suspicion_scores self) player 0.3;
          trust = dict_get (trust_scores self) player 0.3
      in suspicion * SUSPICION_WEIGHT + anger (emotional_state self) * ANGER_BIAS
           - trust * TRUST_WEIGHT)"

text \<open>
  The loop over \<open>alive_players\<close>; \<open>rnd\<close> is the stream of \<open>random()\<close> values and \<open>k\<close> the
  number of values consumed so far.
\<close>

fun vote_scores :: "Agent \<Rightarrow> string list \<Rightarrow> (nat \<Rightarrow> real) \<Rightarrow> nat \<Rightarrow> (string \<times> real) list
    \<Rightarrow> (string \<times> real) list \<times> nat" where
  "vote_scores self [] rnd k scores = (scores, k)"
| "vote_scores self (player # rest) rnd k scores =
     (if player = name self then vote_scores self rest rnd k scores
      else vote_scores self rest rnd (k + 1)
             (dict_set scores player (base_vote_score self player + uniform (- 0.1) 0.1 (rnd k))))"

text \<open>\<open>max(items, key=lambda x: x[1])\<close>: the first item whose value is maximal.\<close>

fun max_item :: "'k \<times> real \<Rightarrow> ('k \<times> real) list \<Rightarrow> 'k \<times> real" where
  "max_item best [] = best"
| "max_item best (x # xs) = (if snd x > snd best then max_item x xs else max_item best xs)"

definition make_vote_decision :: "Agent \<Rightarrow> string list \<Rightarrow> (nat \<Rightarrow> real) \<Rightarrow> nat \<Rightarrow> string \<times> nat" where
  "make_vote_decision self alive_players rnd k =
     (case vote_scores self alive_players rnd k [] of
        ([], k') \<Rightarrow> (name self, k')
      | (x # xs, k') \<Rightarrow> (fst (max_item x xs), k'))"

text \<open>Vocabulary of the vote claim: the other candidates, positions in a list, the draw
  that decides a candidate's score.\<close>

definition candidates :: "Agent \<Rightarrow> string list \<Rightarrow> string list" where
  "candidates self alive_players = filter (\<lambda>p. p \<noteq> name self) alive_players"

definition first_index :: "'a list \<Rightarrow> 'a \<Rightarrow> nat" where
  "first_index xs c = length (takeWhile (\<lambda>x. x \<noteq> c) xs)"

fun last_index :: "'a list \<Rightarrow> 'a \<Rightarrow> nat" where
  "last_index [] c = 0"
| "last_index (x # xs) c = (if c \<in> set xs then Suc (last_index xs c) else 0)"

definition perturbation :: "Agent \<Rightarrow> string list \<Rightarrow> (nat \<Rightarrow> real) \<Rightarrow> nat \<Rightarrow> string \<Rightarrow> real" where
  "perturbation self alive_players rnd k c =
     uniform (- 0.1) 0.1 (rnd (k + last_index (candidates self alive_players) c))"

definition final_vote_score :: "Agent \<Rightarrow> string list \<Rightarrow> (nat \<Rightarrow> real) \<Rightarrow> nat \<Rightarrow> string \<Rightarrow> real" where
  "final_vote_score self alive_players rnd k c =
     base_vote_score self c + perturbation self alive_players rnd k c"

text \<open>The key order of a dictionary with keys \<open>ks\<close> after the keys \<open>cs\<close> are set in turn.\<close>

fun keys_after :: "'a list \<Rightarrow> 'a list \<Rightarrow> 'a list" where
  "keys_after ks [] = ks"
| "keys_after ks (c # cs) = keys_after (if c \<in> set ks then ks else ks @ [c]) cs"

definition vote_roster :: "string list" where
  "vote_roster = [''Alice'', ''Bob'', ''Eve'', ''Bob'']"

definition vote_rnd :: "nat \<Rightarrow> real" where
  "vote_rnd j = (if j = 1 then 1 else 0)"

section \<open>Agent.wolf_night_action\<close>

datatype py_error = KeyError string

text \<open>\<open>self.game_state.agents[name]\<close>: a missing key raises.\<close>

definition agents_get :: "(string \<times> Agent) list \<Rightarrow> string \<Rightarrow> py_error + Agent" where
  "agents_get ags n = (case map_of ags n of None \<Rightarrow> Inl (KeyError n) | Some a \<Rightarrow> Inr a)"

text \<open>The score of one candidate in the loop of \<open>wolf_night_action\<close>; \<open>u\<close> is the value
  of \<open>random()\<close> behind \<open>random.uniform(-0.2, 0.2)\<close>.\<close>

definition night_score :: "Agent \<Rightarrow> string \<Rightarrow> real \<Rightarrow> real" where
  "night_score self player u =
     (let trust = dict_get (trust_scores self) player 0.3;
          suspicion_on_me = (case suspicion_scores self player of None \<Rightarrow> False | Some v \<Rightarrow> v > 0.5);
          score0 = - trust * 2.0;
          score1 = (if suspicion_on_me then score0 + 0.5 else score0)
      in score1 + uniform (- 0.2) 0.2 u)"

text \<open>The loop over the candidates; \<open>best = None\<close> stands for the score \<open>-inf\<close> with no target.\<close>

fun night_scan :: "Agent \<Rightarrow> string list \<Rightarrow> (nat \<Rightarrow> real) \<Rightarrow> nat \<Rightarrow> (string \<times> real) option
    \<Rightarrow> (string \<times> real) option \<times> nat" where
  "night_scan self [] rnd k best = (best, k)"
| "night_scan self (player # rest) rnd k best =
     night_scan self rest rnd (k + 1)
       (case best of
          None \<Rightarrow> Some (player, night_score self player (rnd k))
        | Some (best_target, best_score) \<Rightarrow>
            if night_score self player (rnd k) > best_score
            then Some (player, night_score self player (rnd k)) else best)"

definition wolf_night_action :: "Agent \<Rightarrow> string list \<Rightarrow> (nat \<Rightarrow> real) \<Rightarrow> nat \<Rightarrow> string option \<times> nat" where
  "wolf_night_action self alive_players rnd k =
     (if role self \<noteq> WOLF \<or> \<not> alive self then (None, k)
      else let cands = filter (\<lambda>p. p \<noteq> name self) alive_players in
        if cands = [] then (None, k)
        else (case night_scan self cands rnd k None of
                (best, k') \<Rightarrow> (map_option fst best, k')))"

section \<open>The night phase (engine.py run_night_action, app.py run_night_phase)\<close>

text \<open>\<open>[name for name in alive if agents[name].role == Role.WOLF]\<close>.\<close>

fun living_wolves :: "(string \<times> Agent) list \<Rightarrow> string list \<Rightarrow> py_error + string list" where
  "living_wolves ags [] = Inr []"
| "living_wolves ags (n # ns) =
     (case agents_get ags n of
        Inl e \<Rightarrow> Inl e
      | Inr a \<Rightarrow> (case living_wolves ags ns of
                    Inl e \<Rightarrow> Inl e
                  | Inr ws \<Rightarrow> Inr (if role a = WOLF then n # ws else ws)))"

text \<open>
  The loop over the wolves: the first decision that is truthy (not \<open>None\<close> and not the
  empty string) is taken and the loop is left.
\<close>

fun wolves_decide :: "(string \<times> Agent) list \<Rightarrow> string list \<Rightarrow> string list \<Rightarrow> (nat \<Rightarrow> real) \<Rightarrow> nat
    \<Rightarrow> py_error + (string option \<times> nat)" where
  "wolves_decide ags [] alive_players rnd k = Inr (None, k)"
| "wolves_decide ags (wolf_name # ws) alive_players rnd k =
     (case agents_get ags wolf_name of
        Inl e \<Rightarrow> Inl e
      | Inr agent \<Rightarrow>
          (case wolf_night_action agent alive_players rnd k of
             (Some t, k') \<Rightarrow> if t \<noteq> [] then Inr (Some t, k')
                             else wolves_decide ags ws alive_players rnd k'
           | (None, k') \<Rightarrow> wolves_decide ags ws alive_players rnd k'))"

text \<open>\<open>agents[n].alive = False\<close>, on the agent object stored under the key \<open>n\<close>.\<close>

definition set_dead :: "(string \<times> Agent) list \<Rightarrow> string \<Rightarrow> (string \<times> Agent) list" where
  "set_dead ags n = map (\<lambda>(m, a). if m = n then (m, a\<lparr>alive := False\<rparr>) else (m, a)) ags"

text \<open>
  \<open>for name, agent in agents.items(): if name != x and agent.alive:
  agent.update_psychology(etype, x, x, imp)\<close>.
\<close>

definition notify_others :: "(string \<times> Agent) list \<Rightarrow> string \<Rightarrow> string \<Rightarrow> real \<Rightarrow> string
    \<Rightarrow> (string \<times> Agent) list" where
  "notify_others ags x etype imp now =
     map (\<lambda>(m, a). if m \<noteq> x \<and> alive a then (m, update_psychology a etype x x imp now)
                    else (m, a)) ags"

definition run_night_action :: "GameState \<Rightarrow> (nat \<Rightarrow> real) \<Rightarrow> nat \<Rightarrow> string
    \<Rightarrow> py_error + (GameState \<times> nat)" where
  "run_night_action g rnd k now =
     (let alive_players = get_alive_players g in
      case living_wolves (agents g) alive_players of
        Inl e \<Rightarrow> Inl e
      | Inr wolves \<Rightarrow>
          if wolves = [] then Inr (g, k)
          else (case wolves_decide (agents g) wolves alive_players rnd k of
                  Inl e \<Rightarrow> Inl e
                | Inr (None, k') \<Rightarrow> Inr (g, k')
                | Inr (Some kill_target, k') \<Rightarrow>
                    (case agents_get (agents g) kill_target of
                       Inl e \<Rightarrow> Inl e
                     | Inr victim \<Rightarrow>
                         Inr (g\<lparr>night_kill := Some kill_target,
                                agents := notify_others (set_dead (agents g) kill_target)
                                            kill_target ''killed'' 0.4 now\<rparr>, k'))))"

definition run_night_phase :: "GameState \<Rightarrow> (nat \<Rightarrow> real) \<Rightarrow> nat \<Rightarrow> py_error + (GameState \<times> nat)" where
  "run_night_phase g rnd k =
     (let alive_players = get_alive_players g in
      case living_wolves (agents g) alive_players of
        Inl e \<Rightarrow> Inl e
      | Inr wolves \<Rightarrow>
          if wolves = [] then Inr (g, k)
          else (case wolves_decide (agents g) wolves alive_players rnd k of
                  Inl e \<Rightarrow> Inl e
                | Inr (None, k') \<Rightarrow> Inr (g, k')
                | Inr (Some kill_target, k') \<Rightarrow>
                    (case agents_get (agents g) kill_target of
                       Inl e \<Rightarrow> Inl e
                     | Inr victim \<Rightarrow> Inr (g\<lparr>agents := set_dead (agents g) kill_target\<rparr>, k'))))"

definition two_wolves_game :: GameState where
  "two_wolves_game = mk_game [(''Alice'', mk_agent ''Alice'' WOLF False),
      (''Bob'', (mk_agent ''Bob'' WOLF False)\<lparr>trust_scores := Map.empty(''Alice'' \<mapsto> 0)\<rparr>),
      (''Charlie'', mk_agent ''Charlie'' VILLAGER False),
      (''Player'', mk_agent ''Player'' VILLAGER True)] 1"

section \<open>The vote endpoint (app.py player_vote)\<close>

text \<open>The four \<open>HTTPException\<close>s of \<open>player_vote\<close>, with their status codes.\<close>

datatype http_error = GameNotFound | NotVotingPhase | NoHumanPlayer | TargetNotFound

fun status_code :: "http_error \<Rightarrow> nat" where
  "status_code GameNotFound = 404"
| "status_code NotVotingPhase = 400"
| "status_code NoHumanPlayer = 400"
| "status_code TargetNotFound = 400"

text \<open>The event handed to \<open>manager.broadcast_to_game\<close>: player, target, timestamp.\<close>

datatype broadcast = PlayerVoteEvent string string string

text \<open>
  \<open>games\<close> is \<open>game_mgr.games\<close>. The result is the response or the exception, the
  games after the call and the events broadcast by it.
\<close>

definition player_vote :: "(string \<rightharpoonup> GameState) \<Rightarrow> string \<Rightarrow> string \<Rightarrow> string
    \<Rightarrow> (http_error + string) \<times> (string \<rightharpoonup> GameState) \<times> broadcast list" where
  "player_vote games game_id vote_target now =
     (case games game_id of
        None \<Rightarrow> (Inl GameNotFound, games, [])
      | Some game \<Rightarrow>
          if phase game \<noteq> VOTING then (Inl NotVotingPhase, games, [])
          else (case find (\<lambda>(n, a). is_human a) (agents game) of
                  None \<Rightarrow> (Inl NoHumanPlayer, games, [])
                | Some (n, human) \<Rightarrow>
                    if vote_target \<notin> set (map fst (agents game))
                    then (Inl TargetNotFound, games, [])
                    else (Inr ''ok'', games, [PlayerVoteEvent (name human) vote_target now])))"

definition voting_games :: "string \<rightharpoonup> GameState" where
  "voting_games = Map.empty(''g1'' \<mapsto> game_running\<lparr>phase := VOTING\<rparr>, ''g2'' \<mapsto> game_running)"

section \<open>Agent.__init__ and GameState._init_agents\<close>

text \<open>
  \<open>random.shuffle(x)\<close>: for \<open>i\<close> from \<open>len(x) - 1\<close> down to 1, \<open>j = randbelow(i + 1)\<close> and
  \<open>x[i], x[j] = x[j], x[i]\<close>. The stream \<open>rb\<close> gives the integers drawn; a draw is
  reduced to the range of \<open>randbelow\<close>.
\<close>

fun shuffle_loop :: "nat \<Rightarrow> 'a list \<Rightarrow> (nat \<Rightarrow> nat) \<Rightarrow> nat \<Rightarrow> 'a list \<times> nat" where
  "shuffle_loop 0 x rb k = (x, k)"
| "shuffle_loop (Suc i) x rb k =
     (let j = rb k mod (Suc i + 1)
      in shuffle_loop i ((x[Suc i := x ! j])[j := x ! Suc i]) rb (k + 1))"

definition shuffle :: "'a list \<Rightarrow> (nat \<Rightarrow> nat) \<Rightarrow> nat \<Rightarrow> 'a list \<times> nat" where
  "shuffle x rb k = shuffle_loop (length x - 1) x rb k"

text \<open>\<open>_init_scores\<close>: five rounds, each overwriting the agent's entries for its own name.\<close>

fun init_scores :: "nat \<Rightarrow> Agent \<Rightarrow> (nat \<Rightarrow> real) \<Rightarrow> nat \<Rightarrow> Agent \<times> nat" where
  "init_scores 0 self rnd k = (self, k)"
| "init_scores (Suc n) self rnd k =
     init_scores n
       (self\<lparr>trust_scores := (trust_scores self)(name self \<mapsto> uniform 0.1 0.3 (rnd k)),
             suspicion_scores := (suspicion_scores self)(name self \<mapsto> uniform 0.1 0.3 (rnd (k + 1)))\<rparr>)
       rnd (k + 2)"

definition new_agent :: "string \<Rightarrow> Role \<Rightarrow> string \<Rightarrow> bool \<Rightarrow> (nat \<Rightarrow> real) \<Rightarrow> nat \<Rightarrow> Agent \<times> nat" where
  "new_agent n r p h rnd k =
     init_scores 5
       \<lparr>name = n, role = r, personality = p, is_human = h,
        trust_scores = Map.empty, suspicion_scores = Map.empty,
        emotional_state = \<lparr>anger = 0, fear = 0, confidence = 0.5\<rparr>,
        memory_log = [], alive = True, vote_count = 0, influence = 1.0\<rparr> rnd k"

text \<open>The five personality texts of the source, named by their places in the list.\<close>

definition personalities :: "string list" where
  "personalities = [''personality-0'', ''personality-1'', ''personality-2'', ''personality-3'',
     ''personality-4'']"

definition names :: "string list" where
  "names = [''Alice'', ''Bob'', ''Charlie'', ''Diana'', ''Eve'']"

text \<open>The loop over \<open>enumerate(zip(names, roles))\<close>.\<close>

fun make_agents :: "nat \<Rightarrow> (string \<times> Role) list \<Rightarrow> (nat \<Rightarrow> real) \<Rightarrow> nat \<Rightarrow> (string \<times> Agent) list
    \<Rightarrow> (string \<times> Agent) list \<times> nat" where
  "make_agents i [] rnd k ags = (ags, k)"
| "make_agents i ((n, r) # rest) rnd k ags =
     (let p = (if i < length personalities then personalities ! i else ''villager'');
          (a, k') = new_agent n r p False rnd k
      in make_agents (i + 1) rest rnd k' (dict_set ags n a))"

definition init_agents :: "(nat \<Rightarrow> nat) \<Rightarrow> (nat \<Rightarrow> real) \<Rightarrow> (string \<times> Agent) list \<times> string" where
  "init_agents rb rnd =
     (let roles = fst (shuffle ([WOLF] @ replicate 4 VILLAGER) rb 0);
          (ags, k) = make_agents 0 (zip names roles) rnd 0 [];
          (human, k') = new_agent ''Player'' VILLAGER ''human'' True rnd k
      in (dict_set ags ''Player'' human, ''Player''))"

text \<open>\<open>GameState.__init__\<close>.\<close>

definition new_game :: "(nat \<Rightarrow> nat) \<Rightarrow> (nat \<Rightarrow> real) \<Rightarrow> GameState" where
  "new_game rb rnd =
     (let (ags, hp) = init_agents rb rnd
      in \<lparr>agents = ags, phase = DAY_DISCUSSION, day = 1, game_turn = 0, vote_results = [],
          night_kill = None, winner = None, human_player = hp\<rparr>)"

text \<open>What the claims on a new game look at: key, role, \<open>is_human\<close>, \<open>alive\<close>.\<close>

definition summary :: "string \<times> Agent \<Rightarrow> string \<times> Role \<times> bool \<times> bool" where
  "summary p = (fst p, role (snd p), is_human (snd p), alive (snd p))"

section \<open>The voting phase (engine.py run_voting, app.py run_voting_phase)\<close>

text \<open>\<open>for voter, target in votes.items(): vote_counts[target] = vote_counts.get(target, 0) + 1\<close>.\<close>

fun tally :: "(string \<times> string) list \<Rightarrow> (string \<times> nat) list \<Rightarrow> (string \<times> nat) list" where
  "tally [] vote_counts = vote_counts"
| "tally ((voter, t) # rest) vote_counts =
     tally rest (dict_set vote_counts t
       ((case map_of vote_counts t of None \<Rightarrow> 0 | Some c \<Rightarrow> c) + 1))"

text \<open>\<open>max(vote_counts.values())\<close> and the list of names that reach it; only used on a
  tally that is not empty.\<close>

definition max_votes :: "(string \<times> nat) list \<Rightarrow> nat" where
  "max_votes vote_counts = fold max (map snd vote_counts) 0"

definition max_candidates :: "(string \<times> nat) list \<Rightarrow> string list" where
  "max_candidates vote_counts =
     map fst (filter (\<lambda>(p, c). c = max_votes vote_counts) vote_counts)"

text \<open>\<open>if vote_counts: ... if len(candidates) == 1: eliminated = candidates[0]\<close>.\<close>

definition eliminated_of :: "(string \<times> nat) list \<Rightarrow> string option" where
  "eliminated_of vote_counts =
     (if vote_counts = [] then None
      else (case max_candidates vote_counts of [eliminated] \<Rightarrow> Some eliminated | _ \<Rightarrow> None))"

subsection \<open>The server (app.py)\<close>

text \<open>The loop that asks every living AI agent for its vote; human agents are skipped.\<close>

fun ai_votes :: "(string \<times> Agent) list \<Rightarrow> string list \<Rightarrow> string list \<Rightarrow> (nat \<Rightarrow> real) \<Rightarrow> nat
    \<Rightarrow> (string \<times> string) list \<Rightarrow> py_error + ((string \<times> string) list \<times> nat)" where
  "ai_votes ags [] alive_players rnd k votes = Inr (votes, k)"
| "ai_votes ags (n # ns) alive_players rnd k votes =
     (case agents_get ags n of
        Inl e \<Rightarrow> Inl e
      | Inr a \<Rightarrow>
          if \<not> alive a then ai_votes ags ns alive_players rnd k votes
          else if is_human a then ai_votes ags ns alive_players rnd k votes
          else (case make_vote_decision a alive_players rnd k of
                  (t, k') \<Rightarrow> ai_votes ags ns alive_players rnd k' (dict_set votes n t)))"

text \<open>
  \<open>run_voting_phase\<close>; the broadcasts to the clients are left out. The early return
  waits for votes that are missing.
\<close>

definition run_voting_phase :: "GameState \<Rightarrow> (nat \<Rightarrow> real) \<Rightarrow> nat \<Rightarrow> py_error + (GameState \<times> nat)" where
  "run_voting_phase g rnd k =
     (let alive_players = get_alive_players g in
      case ai_votes (agents g) alive_players alive_players rnd k [] of
        Inl e \<Rightarrow> Inl e
      | Inr (votes, k') \<Rightarrow>
          if length votes < length (filter (\<lambda>(n, a). alive a \<and> \<not> is_human a) (agents g))
          then Inr (g, k')
          else (case eliminated_of (tally votes []) of
                  None \<Rightarrow> Inr (g\<lparr>phase := NIGHT_ACTION\<rparr>, k')
                | Some eliminated \<Rightarrow>
                    (case agents_get (agents g) eliminated of
                       Inl e \<Rightarrow> Inl e
                     | Inr a \<Rightarrow> Inr (g\<lparr>agents := set_dead (agents g) eliminated,
                                         phase := NIGHT_ACTION\<rparr>, k'))))"

subsection \<open>The command-line game (engine.py)\<close>

text \<open>
  \<open>if target in agents: agents[target].vote_count += 1;
  agents[target].update_psychology("voted", name, target, 0.3)\<close>.
\<close>

definition record_vote :: "(string \<times> Agent) list \<Rightarrow> string \<Rightarrow> string \<Rightarrow> string \<Rightarrow> (string \<times> Agent) list" where
  "record_vote ags voter t now =
     (if t \<in> set (map fst ags)
      then map (\<lambda>(m, a). if m = t
                  then (m, update_psychology (a\<lparr>vote_count := vote_count a + 1\<rparr>) ''voted'' voter t 0.3 now)
                  else (m, a)) ags
      else ags)"

text \<open>
  The loop over the living players. \<open>inputs\<close> are the lines that \<open>input()\<close> will return,
  already stripped; \<open>None\<close>, or no line left, is the end of the input (\<open>EOFError\<close>).
\<close>

fun collect_votes :: "(string \<times> Agent) list \<Rightarrow> string list \<Rightarrow> string list \<Rightarrow> string option list
    \<Rightarrow> (nat \<Rightarrow> real) \<Rightarrow> nat \<Rightarrow> string \<Rightarrow> (string \<times> string) list
    \<Rightarrow> py_error + ((string \<times> Agent) list \<times> (string \<times> string) list \<times> string option list \<times> nat)" where
  "collect_votes ags [] alive_players inputs rnd k now votes = Inr (ags, votes, inputs, k)"
| "collect_votes ags (n # ns) alive_players inputs rnd k now votes =
     (case agents_get ags n of
        Inl e \<Rightarrow> Inl e
      | Inr agent \<Rightarrow>
          if \<not> alive agent then collect_votes ags ns alive_players inputs rnd k now votes
          else if is_human agent then
            (case inputs of
               [] \<Rightarrow> collect_votes ags ns alive_players [] rnd k now votes
             | None # inputs' \<Rightarrow> collect_votes ags ns alive_players inputs' rnd k now votes
             | Some user_input # inputs' \<Rightarrow>
                 if user_input \<noteq> [] \<and> user_input \<in> set alive_players
                 then collect_votes (record_vote ags n user_input now) ns alive_players inputs'
                        rnd k now (dict_set votes n user_input)
                 else collect_votes ags ns alive_players inputs' rnd k now votes)
          else (case make_vote_decision agent alive_players rnd k of
                  (t, k') \<Rightarrow>
                    if t \<noteq> []
                    then collect_votes (record_vote ags n t now) ns alive_players inputs
                           rnd k' now (dict_set votes n t)
                    else collect_votes ags ns alive_players inputs rnd k' now votes))"

definition run_voting :: "GameState \<Rightarrow> string option list \<Rightarrow> (nat \<Rightarrow> real) \<Rightarrow> nat \<Rightarrow> string
    \<Rightarrow> py_error + (GameState \<times> string option list \<times> nat)" where
  "run_voting g inputs rnd k now =
     (let alive_players = get_alive_players g in
      case collect_votes (agents g) alive_players alive_players inputs rnd k now [] of
        Inl e \<Rightarrow> Inl e
      | Inr (ags, votes, inputs', k') \<Rightarrow>
          (case eliminated_of (tally votes []) of
             None \<Rightarrow> Inr (g\<lparr>agents := ags\<rparr>, inputs', k')
           | Some eliminated \<Rightarrow>
               (case agents_get ags eliminated of
                  Inl e \<Rightarrow> Inl e
                | Inr eliminated_agent \<Rightarrow>
                    Inr (g\<lparr>agents := notify_others (set_dead ags eliminated) eliminated
                                        ''eliminated'' 0.2 now\<rparr>, inputs', k'))))"

text \<open>A game whose agents are stored under their own names; the fields that no vote changes.\<close>

definition keyed :: "(string \<times> Agent) list \<Rightarrow> bool" where
  "keyed ags = (\<forall>(n, a)\<in>set ags. name a = n)"

definition static :: "(string \<times> Agent) list \<Rightarrow> (string \<times> string \<times> bool \<times> bool) list" where
  "static ags = map (\<lambda>(n, a). (n, name a, alive a, is_human a)) ags"

text \<open>Example games of the voting phase and what is read off a result.\<close>

definition half_rnd :: "nat \<Rightarrow> real" where
  "half_rnd j = 1 / 2"

definition vote_game :: GameState where
  "vote_game = (mk_game [(''Alice'', mk_agent ''Alice'' WOLF False),
      (''Bob'', mk_agent ''Bob'' VILLAGER False), (''Charlie'', mk_agent ''Charlie'' VILLAGER False),
      (''Player'', mk_agent ''Player'' VILLAGER True)] 1)\<lparr>phase := VOTING\<rparr>"

definition tie_game :: GameState where
  "tie_game = game_running\<lparr>phase := VOTING\<rparr>"

definition result_game :: "py_error + (GameState \<times> 'a) \<Rightarrow> GameState option" where
  "result_game r = (case r of Inl e \<Rightarrow> None | Inr (g, x) \<Rightarrow> Some g)"

definition event_log :: "GameState \<Rightarrow> (string \<times> string list) list" where
  "event_log g = map (\<lambda>(n, a). (n, map event_type (memory_log a))) (agents g)"

section \<open>Win conditions\<close>

lemmas ex_defs = game_no_wolf_def game_wolf_majority_def game_timeout_def game_running_def
  mk_game_def mk_agent_def get_wolf_count_def get_villager_count_def NUM_DAYS_def

lemma check_game_end_fields:
  "agents (snd (check_game_end g)) = agents g"
  "day (snd (check_game_end g)) = day g"
  by (simp_all add: check_game_end_def Let_def)

text \<open>
  C3. \<open>check_game_end\<close> tests the win conditions in this order: no living wolf, the
  villagers win; otherwise at least as many living wolves as living villagers, the wolves
  win; otherwise the day beyond 5, the wolves win; each of these sets the winner and the
  phase \<open>GAME_OVER\<close> and returns true. Otherwise it returns false and the state is as before.
\<close>

theorem check_game_end_priority:
  "(get_wolf_count g = 0 \<longrightarrow>
      fst (check_game_end g) \<and> winner (snd (check_game_end g)) = Some ''villagers''
      \<and> phase (snd (check_game_end g)) = GAME_OVER)
   \<and> (get_wolf_count g \<noteq> 0 \<and> get_wolf_count g \<ge> get_villager_count g \<longrightarrow>
      fst (check_game_end g) \<and> winner (snd (check_game_end g)) = Some ''wolves''
      \<and> phase (snd (check_game_end g)) = GAME_OVER)
   \<and> (get_wolf_count g \<noteq> 0 \<and> get_wolf_count g < get_villager_count g \<and> day g > 5 \<longrightarrow>
      fst (check_game_end g) \<and> winner (snd (check_game_end g)) = Some ''wolves''
      \<and> phase (snd (check_game_end g)) = GAME_OVER)
   \<and> (get_wolf_count g \<noteq> 0 \<and> get_wolf_count g < get_villager_count g \<and> day g \<le> 5 \<longrightarrow>
      check_game_end g = (False, g))"
  by (simp add: check_game_end_def Let_def NUM_DAYS_def)

theorem check_game_end_priority_witness:
  "(get_wolf_count game_no_wolf = 0
      \<and> winner (snd (check_game_end game_no_wolf)) = Some ''villagers'')
   \<and> (get_wolf_count game_wolf_majority \<noteq> 0
      \<and> get_wolf_count game_wolf_majority \<ge> get_villager_count game_wolf_majority
      \<and> winner (snd (check_game_end game_wolf_majority)) = Some ''wolves'')
   \<and> (get_wolf_count game_timeout \<noteq> 0
      \<and> get_wolf_count game_timeout < get_villager_count game_timeout \<and> day game_timeout > 5
      \<and> winner (snd (check_game_end game_timeout)) = Some ''wolves'')
   \<and> (get_wolf_count game_running \<noteq> 0
      \<and> get_wolf_count game_running < get_villager_count game_running \<and> day game_running \<le> 5
      \<and> check_game_end game_running = (False, game_running))"
  using check_game_end_priority [of game_no_wolf] check_game_end_priority [of game_wolf_majority]
    check_game_end_priority [of game_timeout] check_game_end_priority [of game_running]
  by (simp add: ex_defs)

lemma check_game_end_again:
  "check_game_end g = (True, g') \<Longrightarrow> check_game_end g' = (True, g')"
  by (auto simp: check_game_end_def Let_def get_wolf_count_def get_villager_count_def
      split: if_splits)

text \<open>
  C6. Once \<open>check_game_end\<close> has returned true with the state \<open>g'\<close>, calling it again, any
  number of times, returns true and leaves that state (winner, phase and every other
  field) as it is.
\<close>

theorem check_game_end_idempotent:
  "check_game_end g = (True, g') \<Longrightarrow>
     check_game_end (((\<lambda>s. snd (check_game_end s)) ^^ n) g') = (True, g')"
proof (induction n)
  case 0
  then show ?case by (simp add: check_game_end_again)
next
  case (Suc n)
  then have "check_game_end (((\<lambda>s. snd (check_game_end s)) ^^ n) g') = (True, g')" by simp
  then have "((\<lambda>s. snd (check_game_end s)) ^^ Suc n) g' = g'" by simp
  with Suc.prems show ?case by (simp add: check_game_end_again)
qed

theorem check_game_end_idempotent_witness:
  "check_game_end game_timeout = (True, game_timeout\<lparr>winner := Some ''wolves'', phase := GAME_OVER\<rparr>)
   \<and> check_game_end (((\<lambda>s. snd (check_game_end s)) ^^ 3)
        (game_timeout\<lparr>winner := Some ''wolves'', phase := GAME_OVER\<rparr>))
      = (True, game_timeout\<lparr>winner := Some ''wolves'', phase := GAME_OVER\<rparr>)"
proof -
  have h: "check_game_end game_timeout
      = (True, game_timeout\<lparr>winner := Some ''wolves'', phase := GAME_OVER\<rparr>)"
    by (simp add: check_game_end_def Let_def ex_defs)
  show ?thesis using h check_game_end_idempotent [OF h, of 3] by simp
qed

section \<open>Psychology updates\<close>

lemma memory_log_apply_effect: "memory_log (apply_effect a et s t i) = memory_log a"
  by (simp add: apply_effect_def Let_def)

lemma memory_log_update_psychology:
  "memory_log (update_psychology a et s t i now)
     = remember (memory_log a) (new_event a et s t i now)"
  by (simp add: update_psychology_def Let_def memory_log_apply_effect)

lemma apply_effect_accused:
  "apply_effect a ''accused'' s t i =
     a\<lparr>emotional_state := (emotional_state a)\<lparr>anger := anger (emotional_state a) + i * 0.3\<rparr>,
       suspicion_scores := (suspicion_scores a)
         (s \<mapsto> min 1 (dict_get (suspicion_scores a) s 0 + i * 0.2))\<rparr>"
  by (simp add: apply_effect_def Let_def)

lemma apply_effect_defended:
  "apply_effect a ''defended'' s t i =
     a\<lparr>trust_scores := (trust_scores a) (s \<mapsto> min 1 (dict_get (trust_scores a) s 0 + i * 0.2))\<rparr>"
  by (simp add: apply_effect_def Let_def)

lemma apply_effect_killed:
  "apply_effect a ''killed'' s t i =
     a\<lparr>emotional_state := (emotional_state a)\<lparr>fear := fear (emotional_state a) + i * 0.4\<rparr>\<rparr>"
  by (simp add: apply_effect_def Let_def)

lemma apply_effect_eliminated: "apply_effect a ''eliminated'' s t i = a"
  by (simp add: apply_effect_def Let_def)

lemma apply_effect_attacked: "apply_effect a ''attacked'' s t i = a"
  by (simp add: apply_effect_def Let_def)

lemma update_psychology_unfold:
  "update_psychology a et s t i now =
     (apply_effect (a\<lparr>memory_log := remember (memory_log a) (new_event a et s t i now)\<rparr>) et s t i)
       \<lparr>emotional_state := clamp_emotions (emotional_state
          (apply_effect (a\<lparr>memory_log := remember (memory_log a) (new_event a et s t i now)\<rparr>)
             et s t i))\<rparr>"
  by (simp add: update_psychology_def Let_def)

text \<open>
  C4. After every \<open>update_psychology\<close> call the memory log holds at most 20 events. When
  the append makes it longer than 20, the log becomes the last 15 events of the appended
  log, in their order; otherwise it is the old log with the new event at its end.
\<close>

theorem memory_log_capped:
  "length (memory_log (update_psychology a et s t i now)) \<le> 20
   \<and> (length (memory_log a) + 1 > 20 \<longrightarrow>
        memory_log (update_psychology a et s t i now)
          = drop (length (memory_log a) + 1 - 15) (memory_log a @ [new_event a et s t i now])
        \<and> length (memory_log (update_psychology a et s t i now)) = 15)
   \<and> (length (memory_log a) + 1 \<le> 20 \<longrightarrow>
        memory_log (update_psychology a et s t i now)
          = memory_log a @ [new_event a et s t i now])"
  by (simp add: memory_log_update_psychology remember_def Let_def)

theorem memory_log_capped_witness:
  "length (memory_log full_log_agent) + 1 > 20
   \<and> length (memory_log (update_psychology full_log_agent ''killed'' ''Bob'' ''Bob'' 0.4 [])) = 15
   \<and> map turn (memory_log (update_psychology full_log_agent ''killed'' ''Bob'' ''Bob'' 0.4 []))
        = [6, 7, 8, 9, 10, 11, 12, 13, 14, 15, 16, 17, 18, 19, 20]
   \<and> length (memory_log alice) + 1 \<le> 20
   \<and> map turn (memory_log (update_psychology alice ''killed'' ''Bob'' ''Bob'' 0.4 [])) = [0]"
  using memory_log_capped [of full_log_agent "''killed''" "''Bob''" "''Bob''" "0.4" "[]"]
    memory_log_capped [of alice "''killed''" "''Bob''" "''Bob''" "0.4" "[]"]
  by (simp add: full_log_agent_def alice_def mk_agent_def new_event_def upt_rec)

lemma update_psychology_capped:
  "anger (emotional_state (update_psychology a et s t i now)) \<le> 1
   \<and> fear (emotional_state (update_psychology a et s t i now)) \<le> 1
   \<and> 0 \<le> confidence (emotional_state (update_psychology a et s t i now))
   \<and> confidence (emotional_state (update_psychology a et s t i now)) \<le> 1"
  by (simp add: update_psychology_unfold clamp_emotions_def)

text \<open>
  C1. The bounds \<open>[0,1]\<close> on the stored values are not kept for a negative impact:
  \<open>anger\<close>, \<open>fear\<close> and the two score dictionaries are only capped from above, so one
  \<open>accused\<close>, \<open>killed\<close> or \<open>defended\<close> event of impact \<open>-1\<close> on a fresh agent leaves
  a negative anger, fear, suspicion or trust value.
\<close>

theorem update_psychology_negative_impact:
  "anger (emotional_state (update_psychology alice ''accused'' ''Bob'' ''Alice'' (-1) [])) = - 0.3
   \<and> suspicion_scores (update_psychology alice ''accused'' ''Bob'' ''Alice'' (-1) []) ''Bob''
       = Some (- 0.2)
   \<and> fear (emotional_state (update_psychology alice ''killed'' ''Bob'' ''Bob'' (-1) [])) = - 0.4
   \<and> trust_scores (update_psychology alice ''defended'' ''Bob'' ''Alice'' (-1) []) ''Bob''
       = Some (- 0.2)"
  by (simp add: update_psychology_unfold apply_effect_accused apply_effect_killed
      apply_effect_defended clamp_emotions_def alice_def mk_agent_def dict_get_def)

lemma update_psychology_eliminated:
  "update_psychology a ''eliminated'' s t i now =
     a\<lparr>memory_log := remember (memory_log a) (new_event a ''eliminated'' s t i now),
       emotional_state := clamp_emotions (emotional_state a)\<rparr>"
  by (simp add: update_psychology_unfold apply_effect_eliminated)

lemma update_psychology_attacked:
  "update_psychology a ''attacked'' s t i now =
     a\<lparr>memory_log := remember (memory_log a) (new_event a ''attacked'' s t i now),
       emotional_state := clamp_emotions (emotional_state a)\<rparr>"
  by (simp add: update_psychology_unfold apply_effect_attacked)

text \<open>
  C5, as stated, fails: an \<open>eliminated\<close> event of impact 0.2 from Bob leaves the anger of a
  fresh agent at 0 and creates no suspicion entry for Bob, and neither does an
  \<open>attacked\<close> event.
\<close>

theorem eliminated_no_nudge_counterexample:
  "anger (emotional_state (update_psychology alice ''eliminated'' ''Bob'' ''Bob'' 0.2 []))
      \<noteq> anger (emotional_state alice) + 0.2 * 0.3
   \<and> suspicion_scores (update_psychology alice ''eliminated'' ''Bob'' ''Bob'' 0.2 []) ''Bob'' = None
   \<and> suspicion_scores (update_psychology alice ''attacked'' ''Bob'' ''Bob'' 0.2 []) ''Bob'' = None"
  by (simp add: update_psychology_eliminated update_psychology_attacked clamp_emotions_def
      alice_def mk_agent_def)

text \<open>
  C5, amended. An event of type \<open>eliminated\<close> or \<open>attacked\<close> appends the memory event
  (with the trimming of the log) and leaves the trust and suspicion dictionaries as they
  were; fear and confidence are only clamped. For \<open>eliminated\<close> the anger, too, is only
  capped at 1.
\<close>

theorem eliminated_attacked_effect:
  "(et = ''eliminated'' \<or> et = ''attacked'' \<longrightarrow>
      memory_log (update_psychology a et s t i now)
        = remember (memory_log a) (new_event a et s t i now)
      \<and> trust_scores (update_psychology a et s t i now) = trust_scores a
      \<and> suspicion_scores (update_psychology a et s t i now) = suspicion_scores a
      \<and> fear (emotional_state (update_psychology a et s t i now)) = min 1 (fear (emotional_state a))
      \<and> confidence (emotional_state (update_psychology a et s t i now))
          = max 0 (min 1 (confidence (emotional_state a))))
   \<and> (et = ''eliminated'' \<longrightarrow>
      anger (emotional_state (update_psychology a et s t i now)) = min 1 (anger (emotional_state a)))"
proof -
  have e: "et = ''eliminated'' \<Longrightarrow> ?thesis"
    by (simp add: update_psychology_eliminated clamp_emotions_def)
  have a: "et = ''attacked'' \<Longrightarrow> ?thesis"
    by (simp add: update_psychology_attacked clamp_emotions_def)
  have n: "et \<noteq> ''eliminated'' \<Longrightarrow> et \<noteq> ''attacked'' \<Longrightarrow> ?thesis"
    by simp
  from e a n show ?thesis by blast
qed

theorem eliminated_attacked_effect_witness:
  "suspicion_scores (update_psychology alice ''eliminated'' ''Bob'' ''Bob'' 0.2 [])
      = suspicion_scores alice
   \<and> anger (emotional_state (update_psychology alice ''eliminated'' ''Bob'' ''Bob'' 0.2 [])) = 0
   \<and> suspicion_scores (update_psychology alice ''attacked'' ''Bob'' ''Bob'' 0.2 [])
      = suspicion_scores alice"
  using eliminated_attacked_effect [of "''eliminated''" alice "''Bob''" "''Bob''" "0.2" "[]"]
    eliminated_attacked_effect [of "''attacked''" alice "''Bob''" "''Bob''" "0.2" "[]"]
  by (simp add: alice_def mk_agent_def)

section \<open>Vote decision\<close>

subsection \<open>Insertion-ordered dictionaries\<close>

lemma map_of_dict_set: "map_of (dict_set d k v) = (map_of d)(k \<mapsto> v)"
  by (induction d k v rule: dict_set.induct) auto

lemma keys_dict_set:
  "map fst (dict_set d k v) = (if k \<in> set (map fst d) then map fst d else map fst d @ [k])"
  by (induction d k v rule: dict_set.induct) auto

lemma keys_after_prefix: "\<exists>rest. keys_after ks cs = ks @ rest"
proof (induction cs arbitrary: ks)
  case Nil
  then show ?case by simp
next
  case (Cons c cs)
  obtain rest where "keys_after (if c \<in> set ks then ks else ks @ [c]) cs
      = (if c \<in> set ks then ks else ks @ [c]) @ rest"
    using Cons.IH by blast
  then show ?case by (cases "c \<in> set ks") auto
qed

lemma distinct_keys_after: "distinct ks \<Longrightarrow> distinct (keys_after ks cs)"
  by (induction cs arbitrary: ks) auto

lemma set_keys_after: "set (keys_after ks cs) = set ks \<union> set cs"
  by (induction cs arbitrary: ks) auto

lemma first_index_Nil: "first_index [] c = 0"
  by (simp add: first_index_def)

lemma first_index_Cons: "first_index (x # xs) c = (if x = c then 0 else Suc (first_index xs c))"
  by (simp add: first_index_def)

lemma first_index_append_in: "c \<in> set xs \<Longrightarrow> first_index (xs @ ys) c = first_index xs c"
  by (induction xs) (auto simp: first_index_Cons)

lemma first_index_append_notin:
  "c \<notin> set xs \<Longrightarrow> first_index (xs @ ys) c = length xs + first_index ys c"
  by (induction xs) (auto simp: first_index_Cons)

lemma first_index_less: "c \<in> set xs \<Longrightarrow> first_index xs c < length xs"
  by (induction xs) (auto simp: first_index_Cons)

lemma nth_first_index: "c \<in> set xs \<Longrightarrow> xs ! first_index xs c = c"
  by (induction xs) (auto simp: first_index_Cons)

lemma keys_after_first_index_old:
  "c \<in> set ks \<Longrightarrow> first_index (keys_after ks cs) c = first_index ks c"
  using keys_after_prefix [of ks cs] by (auto simp: first_index_append_in)

lemma keys_after_first_index_new:
  "c \<notin> set ks \<Longrightarrow> length ks \<le> first_index (keys_after ks cs) c"
  using keys_after_prefix [of ks cs] by (auto simp: first_index_append_notin)

lemma keys_after_order:
  "c1 \<in> set cs \<Longrightarrow> c2 \<in> set cs \<Longrightarrow> c1 \<notin> set ks \<Longrightarrow> c2 \<notin> set ks \<Longrightarrow>
     (first_index (keys_after ks cs) c1 < first_index (keys_after ks cs) c2)
       = (first_index cs c1 < first_index cs c2)"
proof (induction cs arbitrary: ks)
  case Nil
  then show ?case by simp
next
  case (Cons c cs)
  show ?case
  proof (cases "c \<in> set ks")
    case True
    with Cons.prems have "c1 \<in> set cs" "c2 \<in> set cs" "c1 \<noteq> c" "c2 \<noteq> c" by auto
    with Cons.IH [of ks] Cons.prems True show ?thesis by (simp add: first_index_Cons)
  next
    case False
    let ?ks = "ks @ [c]"
    have d: "keys_after ks (c # cs) = keys_after ?ks cs" using False by simp
    have fc: "first_index (keys_after ?ks cs) c = length ks"
      using False by (simp add: keys_after_first_index_old first_index_append_notin first_index_Cons)
    consider (both) "c1 = c" "c2 = c" | (left) "c1 = c" "c2 \<noteq> c" | (right) "c1 \<noteq> c" "c2 = c"
      | (none) "c1 \<noteq> c" "c2 \<noteq> c" by blast
    then show ?thesis
    proof cases
      case both
      then show ?thesis by simp
    next
      case left
      with Cons.prems have "c2 \<notin> set ?ks" by simp
      then have "length ?ks \<le> first_index (keys_after ?ks cs) c2"
        by (rule keys_after_first_index_new)
      with left fc d show ?thesis by (simp add: first_index_Cons)
    next
      case right
      with Cons.prems have "c1 \<notin> set ?ks" by simp
      then have "length ?ks \<le> first_index (keys_after ?ks cs) c1"
        by (rule keys_after_first_index_new)
      with right fc d show ?thesis by (simp add: first_index_Cons)
    next
      case none
      with Cons.prems have "c1 \<in> set cs" "c2 \<in> set cs" "c1 \<notin> set ?ks" "c2 \<notin> set ?ks" by auto
      from Cons.IH [OF this] none d show ?thesis by (simp add: first_index_Cons)
    qed
  qed
qed

lemma max_item_split:
  "(max_item best xs = best \<and> (\<forall>y\<in>set xs. snd y \<le> snd best))
   \<or> (\<exists>pre post. xs = pre @ max_item best xs # post \<and> snd best < snd (max_item best xs)
        \<and> (\<forall>y\<in>set pre. snd y < snd (max_item best xs))
        \<and> (\<forall>y\<in>set post. snd y \<le> snd (max_item best xs)))"
proof (induction xs arbitrary: best)
  case Nil
  then show ?case by simp
next
  case (Cons x xs)
  show ?case
  proof (cases "snd x > snd best")
    case True
    then have m: "max_item best (x # xs) = max_item x xs" by simp
    from Cons.IH [of x] show ?thesis
    proof
      assume "max_item x xs = x \<and> (\<forall>y\<in>set xs. snd y \<le> snd x)"
      then have "x # xs = [] @ max_item x xs # xs \<and> snd best < snd (max_item x xs)
          \<and> (\<forall>y\<in>set []. snd y < snd (max_item x xs))
          \<and> (\<forall>y\<in>set xs. snd y \<le> snd (max_item x xs))"
        using True by simp
      then show ?thesis unfolding m by blast
    next
      assume "\<exists>pre post. xs = pre @ max_item x xs # post \<and> snd x < snd (max_item x xs)
          \<and> (\<forall>y\<in>set pre. snd y < snd (max_item x xs))
          \<and> (\<forall>y\<in>set post. snd y \<le> snd (max_item x xs))"
      then obtain pre post where p: "xs = pre @ max_item x xs # post"
          "snd x < snd (max_item x xs)" "\<forall>y\<in>set pre. snd y < snd (max_item x xs)"
          "\<forall>y\<in>set post. snd y \<le> snd (max_item x xs)" by blast
      then have "x # xs = (x # pre) @ max_item x xs # post \<and> snd best < snd (max_item x xs)
          \<and> (\<forall>y\<in>set (x # pre). snd y < snd (max_item x xs))
          \<and> (\<forall>y\<in>set post. snd y \<le> snd (max_item x xs))"
        using True by auto
      then show ?thesis unfolding m by blast
    qed
  next
    case False
    then have m: "max_item best (x # xs) = max_item best xs" by simp
    from Cons.IH [of best] show ?thesis
    proof
      assume "max_item best xs = best \<and> (\<forall>y\<in>set xs. snd y \<le> snd best)"
      then show ?thesis using False unfolding m by auto
    next
      assume "\<exists>pre post. xs = pre @ max_item best xs # post \<and> snd best < snd (max_item best xs)
          \<and> (\<forall>y\<in>set pre. snd y < snd (max_item best xs))
          \<and> (\<forall>y\<in>set post. snd y \<le> snd (max_item best xs))"
      then obtain pre post where p: "xs = pre @ max_item best xs # post"
          "snd best < snd (max_item best xs)" "\<forall>y\<in>set pre. snd y < snd (max_item best xs)"
          "\<forall>y\<in>set post. snd y \<le> snd (max_item best xs)" by blast
      then have "x # xs = (x # pre) @ max_item best xs # post
          \<and> snd best < snd (max_item best xs)
          \<and> (\<forall>y\<in>set (x # pre). snd y < snd (max_item best xs))
          \<and> (\<forall>y\<in>set post. snd y \<le> snd (max_item best xs))"
        using False by auto
      then show ?thesis unfolding m by blast
    qed
  qed
qed

lemma max_item_first_max:
  "\<exists>pre post. x # xs = pre @ max_item x xs # post
     \<and> (\<forall>y\<in>set pre. snd y < snd (max_item x xs))
     \<and> (\<forall>y\<in>set post. snd y \<le> snd (max_item x xs))"
proof -
  from max_item_split [of x xs] show ?thesis
  proof
    assume "max_item x xs = x \<and> (\<forall>y\<in>set xs. snd y \<le> snd x)"
    then have "x # xs = [] @ max_item x xs # xs \<and> (\<forall>y\<in>set []. snd y < snd (max_item x xs))
        \<and> (\<forall>y\<in>set xs. snd y \<le> snd (max_item x xs))" by simp
    then show ?thesis by blast
  next
    assume "\<exists>pre post. xs = pre @ max_item x xs # post \<and> snd x < snd (max_item x xs)
        \<and> (\<forall>y\<in>set pre. snd y < snd (max_item x xs))
        \<and> (\<forall>y\<in>set post. snd y \<le> snd (max_item x xs))"
    then obtain pre post where p: "xs = pre @ max_item x xs # post"
        "snd x < snd (max_item x xs)" "\<forall>y\<in>set pre. snd y < snd (max_item x xs)"
        "\<forall>y\<in>set post. snd y \<le> snd (max_item x xs)" by blast
    then have "x # xs = (x # pre) @ max_item x xs # post
        \<and> (\<forall>y\<in>set (x # pre). snd y < snd (max_item x xs))
        \<and> (\<forall>y\<in>set post. snd y \<le> snd (max_item x xs))" by auto
    then show ?thesis by blast
  qed
qed

lemma first_index_filter_order:
  "P c1 \<Longrightarrow> P c2 \<Longrightarrow>
     (first_index (filter P xs) c1 < first_index (filter P xs) c2)
       = (first_index xs c1 < first_index xs c2)"
  by (induction xs) (auto simp: first_index_Cons first_index_Nil)

lemma last_index_nth: "c \<in> set xs \<Longrightarrow> last_index xs c < length xs \<and> xs ! last_index xs c = c"
  by (induction xs) auto

lemma uniform_bounds: "0 \<le> u \<Longrightarrow> u \<le> 1 \<Longrightarrow> - 0.1 \<le> uniform (- 0.1) 0.1 u \<and> uniform (- 0.1) 0.1 u \<le> 0.1"
  by (simp add: uniform_def)

lemma candidates_Cons:
  "candidates self (p # rest) = (if p = name self then candidates self rest else p # candidates self rest)"
  by (simp add: candidates_def)

lemma vote_scores_keys:
  "map fst (fst (vote_scores self roster rnd k acc))
     = keys_after (map fst acc) (candidates self roster)"
proof (induction roster arbitrary: k acc)
  case Nil
  then show ?case by (simp add: candidates_def)
next
  case (Cons p rest)
  then show ?case by (simp add: candidates_Cons keys_dict_set)
qed

lemma vote_scores_count:
  "snd (vote_scores self roster rnd k acc) = k + length (candidates self roster)"
  by (induction roster arbitrary: k acc) (simp_all add: candidates_def)

lemma vote_scores_map_of:
  "map_of (fst (vote_scores self roster rnd k acc)) c =
     (if c \<in> set (candidates self roster)
      then Some (base_vote_score self c
                  + uniform (- 0.1) 0.1 (rnd (k + last_index (candidates self roster) c)))
      else map_of acc c)"
proof (induction roster arbitrary: k acc)
  case Nil
  then show ?case by (simp add: candidates_def)
next
  case (Cons p rest)
  show ?case
  proof (cases "p = name self")
    case True
    with Cons.IH [of k acc] show ?thesis by (simp add: candidates_Cons)
  next
    case False
    let ?acc = "dict_set acc p (base_vote_score self p + uniform (- 0.1) 0.1 (rnd k))"
    have v: "vote_scores self (p # rest) rnd k acc = vote_scores self rest rnd (k + 1) ?acc"
      using False by simp
    have c: "candidates self (p # rest) = p # candidates self rest"
      using False by (simp add: candidates_Cons)
    show ?thesis
      unfolding v c using Cons.IH [of "k + 1" ?acc] by (auto simp: map_of_dict_set)
  qed
qed

lemma max_item_argmax:
  assumes "distinct (map fst (x # xs))"
  shows "max_item x xs \<in> set (x # xs)
    \<and> (\<forall>y\<in>set (x # xs). snd y \<le> snd (max_item x xs))
    \<and> (\<forall>y\<in>set (x # xs). snd y = snd (max_item x xs) \<longrightarrow>
          first_index (map fst (x # xs)) (fst (max_item x xs))
            \<le> first_index (map fst (x # xs)) (fst y))"
proof -
  let ?m = "max_item x xs"
  obtain pre post where d: "x # xs = pre @ ?m # post"
    and lt: "\<forall>y\<in>set pre. snd y < snd ?m" and le: "\<forall>y\<in>set post. snd y \<le> snd ?m"
    using max_item_first_max [of x xs] by blast
  have keys: "map fst (x # xs) = map fst pre @ fst ?m # map fst post"
    using arg_cong [OF d, of "map fst"] by simp
  have dist: "distinct (map fst pre @ fst ?m # map fst post)"
    using assms unfolding keys .
  have m_in: "?m \<in> set (x # xs)" by (subst d) simp
  have all_le: "\<forall>y\<in>set (x # xs). snd y \<le> snd ?m"
    using lt le by (subst d) auto
  have fm: "first_index (map fst (x # xs)) (fst ?m) = length pre"
    unfolding keys using dist by (simp add: first_index_append_notin first_index_Cons)
  have tie: "first_index (map fst (x # xs)) (fst ?m) \<le> first_index (map fst (x # xs)) (fst y)"
    if y: "y \<in> set (x # xs)" and eq: "snd y = snd ?m" for y
  proof -
    from y have "y \<in> set (pre @ ?m # post)" using d by simp
    with eq lt have "y \<in> set (?m # post)" by auto
    then have "fst y \<in> set (fst ?m # map fst post)" by auto
    moreover have "set (map fst pre) \<inter> set (fst ?m # map fst post) = {}"
      using dist by (simp only: distinct_append)
    ultimately have "fst y \<notin> set (map fst pre)" by blast
    then have "first_index (map fst (x # xs)) (fst y)
        = length (map fst pre) + first_index (fst ?m # map fst post) (fst y)"
      unfolding keys by (rule first_index_append_notin)
    with fm show ?thesis by simp
  qed
  from m_in all_le tie show ?thesis by blast
qed

lemma set_candidates: "set (candidates self roster) = {p \<in> set roster. p \<noteq> name self}"
  by (auto simp: candidates_def)

lemma vote_scores_final:
  "c \<in> set (candidates self roster) \<Longrightarrow>
     map_of (fst (vote_scores self roster rnd k [])) c = Some (final_vote_score self roster rnd k c)"
  by (simp add: vote_scores_map_of final_vote_score_def perturbation_def)

lemma vote_scores_distinct: "distinct (map fst (fst (vote_scores self roster rnd k [])))"
  by (simp add: vote_scores_keys distinct_keys_after)

lemma vote_scores_key_set:
  "set (map fst (fst (vote_scores self roster rnd k []))) = set (candidates self roster)"
  by (simp only: vote_scores_keys set_keys_after) simp

lemma make_vote_decision_alt:
  "make_vote_decision self roster rnd k =
     (case fst (vote_scores self roster rnd k []) of
        [] \<Rightarrow> (name self, snd (vote_scores self roster rnd k []))
      | x # xs \<Rightarrow> (fst (max_item x xs), snd (vote_scores self roster rnd k [])))"
  by (simp add: make_vote_decision_def split: prod.splits list.splits)

lemma make_vote_decision_other:
  assumes ex: "\<exists>p\<in>set roster. p \<noteq> name self"
  shows "fst (make_vote_decision self roster rnd k) \<in> set (candidates self roster)
    \<and> (\<forall>c\<in>set (candidates self roster).
          final_vote_score self roster rnd k c
            \<le> final_vote_score self roster rnd k (fst (make_vote_decision self roster rnd k)))
    \<and> (\<forall>c\<in>set (candidates self roster).
          final_vote_score self roster rnd k c
            = final_vote_score self roster rnd k (fst (make_vote_decision self roster rnd k))
          \<longrightarrow> first_index roster (fst (make_vote_decision self roster rnd k))
                \<le> first_index roster c)"
proof -
  let ?cands = "candidates self roster"
  let ?scores = "fst (vote_scores self roster rnd k [])"
  let ?final = "final_vote_score self roster rnd k"
  from ex have "set ?cands \<noteq> {}" by (auto simp: set_candidates)
  then have "?scores \<noteq> []" using vote_scores_key_set [of self roster rnd k] by auto
  then obtain x xs where sc: "?scores = x # xs" by (cases ?scores) auto
  let ?m = "max_item x xs"
  let ?r = "fst ?m"
  have r: "fst (make_vote_decision self roster rnd k) = ?r"
    using sc by (simp add: make_vote_decision_alt)
  have dist: "distinct (map fst (x # xs))"
    using vote_scores_distinct [of self roster rnd k] sc by simp
  note am = max_item_argmax [OF dist]
  from am have m_in: "?m \<in> set ?scores" using sc by simp
  then have "?r \<in> set (map fst ?scores)" by force
  then have r_cand: "?r \<in> set ?cands" by (simp only: vote_scores_key_set)
  have "map_of ?scores ?r = Some (snd ?m)"
    using m_in vote_scores_distinct [of self roster rnd k] by simp
  with vote_scores_final [OF r_cand, of rnd k] have fr: "snd ?m = ?final ?r" by simp
  have entry: "(c, ?final c) \<in> set (x # xs)" if "c \<in> set ?cands" for c
  proof -
    have "(c, ?final c) \<in> set ?scores"
      using vote_scores_final [OF that, of rnd k] by (rule map_of_SomeD)
    then show ?thesis by (simp only: sc)
  qed
  have le: "?final c \<le> ?final ?r" if "c \<in> set ?cands" for c
    using am entry [OF that] fr by fastforce
  have tie: "first_index roster ?r \<le> first_index roster c"
    if c: "c \<in> set ?cands" and eq: "?final c = ?final ?r" for c
  proof -
    have "first_index (map fst (x # xs)) ?r \<le> first_index (map fst (x # xs)) (fst (c, ?final c))"
      using am entry [OF c] eq fr by (metis snd_conv)
    then have "\<not> first_index (map fst ?scores) c < first_index (map fst ?scores) ?r"
      using sc by simp
    then have "\<not> first_index (keys_after [] ?cands) c < first_index (keys_after [] ?cands) ?r"
      by (simp add: vote_scores_keys)
    then have "\<not> first_index ?cands c < first_index ?cands ?r"
      using keys_after_order [of c ?cands ?r "[]"] c r_cand by simp
    moreover have "c \<noteq> name self" "?r \<noteq> name self"
      using c r_cand by (auto simp: set_candidates)
    ultimately have "\<not> first_index roster c < first_index roster ?r"
      using first_index_filter_order [of "\<lambda>p. p \<noteq> name self" c ?r roster]
      by (simp add: candidates_def)
    then show ?thesis by simp
  qed
  from r_cand le tie show ?thesis unfolding r by blast
qed

lemma make_vote_decision_self:
  "(fst (make_vote_decision self roster rnd k) = name self) = (\<forall>p\<in>set roster. p = name self)"
proof (cases "\<exists>p\<in>set roster. p \<noteq> name self")
  case True
  then have "fst (make_vote_decision self roster rnd k) \<in> set (candidates self roster)"
    using make_vote_decision_other by blast
  then have "fst (make_vote_decision self roster rnd k) \<noteq> name self"
    by (simp add: set_candidates)
  with True show ?thesis by blast
next
  case False
  then have "candidates self roster = []" by (auto simp: candidates_def filter_empty_conv)
  then have "map fst (fst (vote_scores self roster rnd k [])) = []"
    by (simp add: vote_scores_keys)
  then have "fst (vote_scores self roster rnd k []) = []" by simp
  then have "fst (make_vote_decision self roster rnd k) = name self"
    by (simp add: make_vote_decision_alt)
  with False show ?thesis by blast
qed

text \<open>
  C2. \<open>make_vote_decision\<close> returns the agent's own name exactly when the roster holds
  no other name. Otherwise it returns another name of the roster whose score
  \<open>suspicion * 1.5 + anger * 0.5 - trust * 1.0\<close> (defaults 0.3 and 0.3) plus its own draw is
  maximal among the other names, and among those of maximal score the one met first in
  the roster. Each candidate's draw is taken at one of its own places in the roster, and
  every draw lies in \<open>[-0.1, 0.1]\<close> when the values of \<open>random()\<close> lie in \<open>[0, 1]\<close>.
\<close>

theorem make_vote_decision_argmax:
  "((fst (make_vote_decision self roster rnd k) = name self) = (\<forall>p\<in>set roster. p = name self))
   \<and> ((\<exists>p\<in>set roster. p \<noteq> name self) \<longrightarrow>
        fst (make_vote_decision self roster rnd k) \<in> set roster
        \<and> fst (make_vote_decision self roster rnd k) \<noteq> name self
        \<and> (\<forall>c\<in>set roster. c \<noteq> name self \<longrightarrow>
              final_vote_score self roster rnd k c
                \<le> final_vote_score self roster rnd k (fst (make_vote_decision self roster rnd k)))
        \<and> (\<forall>c\<in>set roster. c \<noteq> name self
              \<and> final_vote_score self roster rnd k c
                  = final_vote_score self roster rnd k (fst (make_vote_decision self roster rnd k))
              \<longrightarrow> first_index roster (fst (make_vote_decision self roster rnd k))
                    \<le> first_index roster c))
   \<and> (\<forall>c. final_vote_score self roster rnd k c
          = dict_get (suspicion_scores self) c 0.3 * 1.5 + anger (emotional_state self) * 0.5
              - dict_get (trust_scores self) c 0.3 * 1.0 + perturbation self roster rnd k c)
   \<and> (\<forall>c\<in>set (candidates self roster).
          last_index (candidates self roster) c < length (candidates self roster)
          \<and> candidates self roster ! last_index (candidates self roster) c = c)
   \<and> ((\<forall>j. 0 \<le> rnd j \<and> rnd j \<le> 1) \<longrightarrow>
          (\<forall>c. - 0.1 \<le> perturbation self roster rnd k c \<and> perturbation self roster rnd k c \<le> 0.1))"
proof -
  have a: "(fst (make_vote_decision self roster rnd k) = name self)
      = (\<forall>p\<in>set roster. p = name self)"
    by (rule make_vote_decision_self)
  have b: "fst (make_vote_decision self roster rnd k) \<in> set roster
        \<and> fst (make_vote_decision self roster rnd k) \<noteq> name self
        \<and> (\<forall>c\<in>set roster. c \<noteq> name self \<longrightarrow>
              final_vote_score self roster rnd k c
                \<le> final_vote_score self roster rnd k (fst (make_vote_decision self roster rnd k)))
        \<and> (\<forall>c\<in>set roster. c \<noteq> name self
              \<and> final_vote_score self roster rnd k c
                  = final_vote_score self roster rnd k (fst (make_vote_decision self roster rnd k))
              \<longrightarrow> first_index roster (fst (make_vote_decision self roster rnd k))
                    \<le> first_index roster c)"
    if "\<exists>p\<in>set roster. p \<noteq> name self"
    using make_vote_decision_other [OF that, of rnd k] by (simp add: set_candidates)
  have c: "final_vote_score self roster rnd k c
          = dict_get (suspicion_scores self) c 0.3 * 1.5 + anger (emotional_state self) * 0.5
              - dict_get (trust_scores self) c 0.3 * 1.0 + perturbation self roster rnd k c" for c
    by (simp add: final_vote_score_def base_vote_score_def Let_def SUSPICION_WEIGHT_def
        ANGER_BIAS_def TRUST_WEIGHT_def)
  have d: "\<forall>c\<in>set (candidates self roster).
          last_index (candidates self roster) c < length (candidates self roster)
          \<and> candidates self roster ! last_index (candidates self roster) c = c"
    by (simp add: last_index_nth)
  have e: "- 0.1 \<le> perturbation self roster rnd k c \<and> perturbation self roster rnd k c \<le> 0.1"
    if "\<forall>j. 0 \<le> rnd j \<and> rnd j \<le> 1" for c
    unfolding perturbation_def using that by (intro uniform_bounds) auto
  from a b c d e show ?thesis by blast
qed

lemma vote_example: "make_vote_decision alice vote_roster vote_rnd 0 = (''Eve'', 3)"
  by (simp add: make_vote_decision_def vote_roster_def vote_rnd_def alice_def mk_agent_def
      base_vote_score_def dict_get_def uniform_def Let_def)

theorem make_vote_decision_argmax_witness:
  "(\<exists>p\<in>set vote_roster. p \<noteq> name alice) \<and> (\<forall>j. 0 \<le> vote_rnd j \<and> vote_rnd j \<le> 1)
   \<and> fst (make_vote_decision alice vote_roster vote_rnd 0) = ''Eve''
   \<and> final_vote_score alice vote_roster vote_rnd 0 ''Bob''
        \<le> final_vote_score alice vote_roster vote_rnd 0 ''Eve''
   \<and> perturbation alice vote_roster vote_rnd 0 ''Bob'' \<le> 0.1"
proof -
  have h1: "\<exists>p\<in>set vote_roster. p \<noteq> name alice"
    by (simp add: vote_roster_def alice_def mk_agent_def)
  have h2: "\<forall>j. 0 \<le> vote_rnd j \<and> vote_rnd j \<le> 1" by (simp add: vote_rnd_def)
  have bob: "''Bob'' \<in> set vote_roster" "''Bob'' \<noteq> name alice"
    by (simp_all add: vote_roster_def alice_def mk_agent_def)
  note t = make_vote_decision_argmax [of alice vote_roster vote_rnd 0]
  have r: "fst (make_vote_decision alice vote_roster vote_rnd 0) = ''Eve''"
    by (simp add: vote_example)
  from t h1 have "\<forall>c\<in>set vote_roster. c \<noteq> name alice \<longrightarrow>
      final_vote_score alice vote_roster vote_rnd 0 c
        \<le> final_vote_score alice vote_roster vote_rnd 0
             (fst (make_vote_decision alice vote_roster vote_rnd 0))"
    by blast
  with bob have "final_vote_score alice vote_roster vote_rnd 0 ''Bob''
      \<le> final_vote_score alice vote_roster vote_rnd 0
           (fst (make_vote_decision alice vote_roster vote_rnd 0))"
    by blast
  then have le: "final_vote_score alice vote_roster vote_rnd 0 ''Bob''
      \<le> final_vote_score alice vote_roster vote_rnd 0 ''Eve''"
    by (simp only: r)
  from t h2 have "\<forall>c. - 0.1 \<le> perturbation alice vote_roster vote_rnd 0 c
      \<and> perturbation alice vote_roster vote_rnd 0 c \<le> 0.1"
    by blast
  then have p: "perturbation alice vote_roster vote_rnd 0 ''Bob'' \<le> 0.1" by blast
  from h1 h2 r le p show ?thesis by blast
qed

section \<open>Night phase\<close>

lemma night_scan_Some:
  "\<exists>t s. fst (night_scan self cs rnd k (Some b)) = Some (t, s) \<and> (t \<in> set cs \<or> t = fst b)"
proof (induction cs arbitrary: k b)
  case Nil
  then show ?case by (cases b) simp
next
  case (Cons c cs)
  obtain bt bs where b: "b = (bt, bs)" by (cases b)
  show ?case
  proof (cases "night_score self c (rnd k) > bs")
    case True
    then have "night_scan self (c # cs) rnd k (Some b)
        = night_scan self cs rnd (k + 1) (Some (c, night_score self c (rnd k)))"
      by (simp add: b)
    with Cons.IH [of "k + 1" "(c, night_score self c (rnd k))"] show ?thesis by auto
  next
    case False
    then have "night_scan self (c # cs) rnd k (Some b)
        = night_scan self cs rnd (k + 1) (Some b)"
      by (simp add: b)
    with Cons.IH [of "k + 1" b] show ?thesis by auto
  qed
qed

lemma night_scan_None:
  "cs \<noteq> [] \<Longrightarrow> \<exists>t s. fst (night_scan self cs rnd k None) = Some (t, s) \<and> t \<in> set cs"
proof (cases cs)
  case Nil
  assume "cs \<noteq> []"
  with Nil show ?thesis by simp
next
  case (Cons c cs')
  have "night_scan self cs rnd k None
      = night_scan self cs' rnd (k + 1) (Some (c, night_score self c (rnd k)))"
    by (simp add: Cons)
  with night_scan_Some [of self cs' rnd "k + 1" "(c, night_score self c (rnd k))"] Cons
  show ?thesis by auto
qed

lemma wolf_night_action_alt:
  "wolf_night_action self al rnd k =
     (if role self \<noteq> WOLF \<or> \<not> alive self then (None, k)
      else if filter (\<lambda>p. p \<noteq> name self) al = [] then (None, k)
      else (map_option fst (fst (night_scan self (filter (\<lambda>p. p \<noteq> name self) al) rnd k None)),
            snd (night_scan self (filter (\<lambda>p. p \<noteq> name self) al) rnd k None)))"
  by (simp add: wolf_night_action_def Let_def split: prod.splits)

lemma wolf_night_action_target:
  assumes "role self = WOLF" "alive self" "\<exists>p\<in>set al. p \<noteq> name self"
  shows "\<exists>t k'. wolf_night_action self al rnd k = (Some t, k') \<and> t \<in> set al \<and> t \<noteq> name self"
proof -
  let ?cs = "filter (\<lambda>p. p \<noteq> name self) al"
  from assms(3) have ne: "?cs \<noteq> []" by (simp add: filter_empty_conv)
  from night_scan_None [OF ne, of self rnd k] obtain t s where
    t: "fst (night_scan self ?cs rnd k None) = Some (t, s)" "t \<in> set ?cs" by blast
  then have "wolf_night_action self al rnd k = (Some t, snd (night_scan self ?cs rnd k None))"
    using assms(1,2) ne by (simp add: wolf_night_action_alt)
  with t(2) show ?thesis by auto
qed

lemma alive_update_psychology: "alive (update_psychology a et s t i now) = alive a"
  by (simp add: update_psychology_def apply_effect_def Let_def)

lemma alive_names_notify_others:
  "map fst (filter (\<lambda>(n, a). alive a) (notify_others ags x et i now))
     = map fst (filter (\<lambda>(n, a). alive a) ags)"
  by (induction ags) (auto simp: notify_others_def alive_update_psychology split: if_splits)

lemma alive_names_set_dead:
  "map fst (filter (\<lambda>(n, a). alive a) (set_dead ags t))
     = filter (\<lambda>n. n \<noteq> t) (map fst (filter (\<lambda>(n, a). alive a) ags))"
  by (induction ags) (auto simp: set_dead_def split: if_splits)

lemma length_filter_remove:
  "distinct xs \<Longrightarrow> t \<in> set xs \<Longrightarrow> Suc (length (filter (\<lambda>n. n \<noteq> t) xs)) = length xs"
proof (induction xs)
  case Nil
  then show ?case by simp
next
  case (Cons x xs)
  show ?case
  proof (cases "x = t")
    case True
    with Cons.prems have "t \<notin> set xs" by simp
    then have "filter (\<lambda>n. n \<noteq> t) xs = xs" by (auto simp: filter_id_conv)
    with True show ?thesis by simp
  next
    case False
    with Cons show ?thesis by simp
  qed
qed

lemma agents_get_in:
  "distinct (map fst ags) \<Longrightarrow> (n, a) \<in> set ags \<Longrightarrow> agents_get ags n = Inr a"
  by (simp add: agents_get_def)

lemma living_wolves_filter:
  "distinct (map fst ags) \<Longrightarrow> set ps \<subseteq> set ags \<Longrightarrow>
     living_wolves ags (map fst ps) = Inr (map fst (filter (\<lambda>(n, a). role a = WOLF) ps))"
proof (induction ps)
  case Nil
  then show ?case by simp
next
  case (Cons p ps)
  obtain n a where p: "p = (n, a)" by (cases p)
  with Cons.prems have "agents_get ags n = Inr a" by (simp add: agents_get_in)
  with Cons p show ?case by simp
qed

lemma living_wolves_game:
  assumes "distinct (map fst (agents g))"
  shows "living_wolves (agents g) (get_alive_players g)
    = Inr (map fst (filter (\<lambda>(n, a). role a = WOLF \<and> alive a) (agents g)))"
proof -
  have "living_wolves (agents g) (map fst (filter (\<lambda>(n, a). alive a) (agents g)))
      = Inr (map fst (filter (\<lambda>(n, a). role a = WOLF) (filter (\<lambda>(n, a). alive a) (agents g))))"
    using assms by (intro living_wolves_filter) auto
  moreover have "filter (\<lambda>(n, a). role a = WOLF) (filter (\<lambda>(n, a). alive a) (agents g))
      = filter (\<lambda>(n, a). role a = WOLF \<and> alive a) (agents g)"
    by (simp add: case_prod_unfold conj_commute)
  ultimately show ?thesis by (simp add: get_alive_players_def)
qed

lemma wolves_decide_first:
  assumes "agents_get ags w = Inr aw" "wolf_night_action aw al rnd k = (Some t, k')" "t \<noteq> []"
  shows "wolves_decide ags (w # ws) al rnd k = Inr (Some t, k')"
  using assms by simp

lemma wolves_decide_extend:
  "wolves_decide ags ws al rnd k = Inr (Some t, k') \<Longrightarrow>
     wolves_decide ags (ws @ ws') al rnd k = Inr (Some t, k')"
proof (induction ws arbitrary: k)
  case Nil
  then show ?case by simp
next
  case (Cons w ws)
  then show ?case
    by (auto split: sum.splits prod.splits option.splits if_splits)
qed

lemma alive_names_distinct:
  "distinct (map fst (agents g)) \<Longrightarrow> distinct (get_alive_players g)"
  by (simp add: get_alive_players_def distinct_map_filter)

lemma alive_names_keys: "set (get_alive_players g) \<subseteq> set (map fst (agents g))"
  by (auto simp: get_alive_players_def)

lemma night_first_wolf:
  assumes dist: "distinct (map fst (agents g))"
    and names: "[] \<notin> set (map fst (agents g))"
    and two: "2 \<le> get_wolf_count g"
  shows "\<exists>w aw rest t k'.
      filter (\<lambda>(n, a). role a = WOLF \<and> alive a) (agents g) = (w, aw) # rest
    \<and> wolf_night_action aw (get_alive_players g) rnd k = (Some t, k')
    \<and> t \<in> set (get_alive_players g)
    \<and> run_night_action g rnd k now
        = Inr (g\<lparr>night_kill := Some t,
                 agents := notify_others (set_dead (agents g) t) t ''killed'' 0.4 now\<rparr>, k')
    \<and> run_night_phase g rnd k = Inr (g\<lparr>agents := set_dead (agents g) t\<rparr>, k')"
proof -
  let ?ws = "filter (\<lambda>(n, a). role a = WOLF \<and> alive a) (agents g)"
  let ?al = "get_alive_players g"
  from two have "2 \<le> length ?ws" by (simp add: get_wolf_count_def)
  then obtain p1 p2 rest' where ws: "?ws = p1 # p2 # rest'"
    by (cases ?ws; cases "tl ?ws") auto
  obtain w aw where p1: "p1 = (w, aw)" by (cases p1)
  obtain w2 a2 where p2: "p2 = (w2, a2)" by (cases p2)
  have in1: "(w, aw) \<in> set ?ws" and in2: "(w2, a2) \<in> set ?ws"
    by (simp_all add: ws p1 p2)
  then have m1: "(w, aw) \<in> set (agents g)" "role aw = WOLF" "alive aw"
    and m2: "(w2, a2) \<in> set (agents g)" "alive a2" by auto
  have "distinct (map fst ?ws)" using dist by (rule distinct_map_filter)
  then have neq: "w \<noteq> w2" by (simp add: ws p1 p2)
  have al1: "w \<in> set ?al" and al2: "w2 \<in> set ?al"
    using m1 m2 by (force simp: get_alive_players_def)+
  from al1 al2 neq have other: "\<exists>p\<in>set ?al. p \<noteq> name aw" by metis
  from wolf_night_action_target [OF m1(2) m1(3) other, of rnd k] obtain t k' where
    t: "wolf_night_action aw ?al rnd k = (Some t, k')" "t \<in> set ?al" by blast
  from t(2) alive_names_keys have tkey: "t \<in> set (map fst (agents g))" by blast
  with names have tne: "t \<noteq> []" by metis
  have getw: "agents_get (agents g) w = Inr aw" using dist m1(1) by (rule agents_get_in)
  from tkey obtain victim where "(t, victim) \<in> set (agents g)" by auto
  with dist have getv: "agents_get (agents g) t = Inr victim" by (rule agents_get_in)
  have lw: "living_wolves (agents g) ?al = Inr (w # w2 # map fst rest')"
    using living_wolves_game [OF dist] by (simp add: ws p1 p2)
  have wd: "wolves_decide (agents g) (w # w2 # map fst rest') ?al rnd k = Inr (Some t, k')"
    using getw t(1) tne by (rule wolves_decide_first)
  have r1: "run_night_action g rnd k now
        = Inr (g\<lparr>night_kill := Some t,
                 agents := notify_others (set_dead (agents g) t) t ''killed'' 0.4 now\<rparr>, k')"
    by (simp add: run_night_action_def Let_def lw wd getv del: wolves_decide.simps)
  have r2: "run_night_phase g rnd k = Inr (g\<lparr>agents := set_dead (agents g) t\<rparr>, k')"
    by (simp add: run_night_phase_def Let_def lw wd getv del: wolves_decide.simps)
  from ws p1 t r1 r2 show ?thesis by blast
qed

text \<open>
  C8. In a game with at least two living wolves (distinct, non-empty names), the first
  living wolf in roster order returns a target, and that target alone is the victim of
  \<open>run_night_action\<close> and of \<open>run_night_phase\<close>: it is in the alive list before, absent
  from it after, and the alive list loses exactly this one name; the random values
  consumed are those of the first wolf. Whatever wolves follow a wolf that has decided in
  the loop, the result of the loop is the same.
\<close>

theorem night_first_wolf_decides:
  assumes dist: "distinct (map fst (agents g))"
    and names: "[] \<notin> set (map fst (agents g))"
    and two: "2 \<le> get_wolf_count g"
  shows "(\<exists>w aw rest t k' g1 g2.
        filter (\<lambda>(n, a). role a = WOLF \<and> alive a) (agents g) = (w, aw) # rest
      \<and> wolf_night_action aw (get_alive_players g) rnd k = (Some t, k')
      \<and> t \<in> set (get_alive_players g)
      \<and> run_night_action g rnd k now = Inr (g1, k')
      \<and> night_kill g1 = Some t
      \<and> get_alive_players g1 = filter (\<lambda>n. n \<noteq> t) (get_alive_players g)
      \<and> Suc (length (get_alive_players g1)) = length (get_alive_players g)
      \<and> run_night_phase g rnd k = Inr (g2, k')
      \<and> get_alive_players g2 = filter (\<lambda>n. n \<noteq> t) (get_alive_players g)
      \<and> Suc (length (get_alive_players g2)) = length (get_alive_players g))
    \<and> (\<forall>ws ws' al j t k'. wolves_decide (agents g) ws al rnd j = Inr (Some t, k') \<longrightarrow>
          wolves_decide (agents g) (ws @ ws') al rnd j = Inr (Some t, k'))"
proof -
  let ?al = "get_alive_players g"
  from night_first_wolf [OF dist names two, of rnd k now] obtain w aw rest t k' where
    f: "filter (\<lambda>(n, a). role a = WOLF \<and> alive a) (agents g) = (w, aw) # rest"
    and d: "wolf_night_action aw ?al rnd k = (Some t, k')"
    and t: "t \<in> set ?al"
    and r1: "run_night_action g rnd k now
        = Inr (g\<lparr>night_kill := Some t,
                 agents := notify_others (set_dead (agents g) t) t ''killed'' 0.4 now\<rparr>, k')"
    and r2: "run_night_phase g rnd k = Inr (g\<lparr>agents := set_dead (agents g) t\<rparr>, k')"
    by blast
  let ?g1 = "g\<lparr>night_kill := Some t,
      agents := notify_others (set_dead (agents g) t) t ''killed'' 0.4 now\<rparr>"
  let ?g2 = "g\<lparr>agents := set_dead (agents g) t\<rparr>"
  have a2: "get_alive_players ?g2 = filter (\<lambda>n. n \<noteq> t) ?al"
    by (simp add: get_alive_players_def alive_names_set_dead)
  have a1: "get_alive_players ?g1 = filter (\<lambda>n. n \<noteq> t) ?al"
    by (simp add: get_alive_players_def alive_names_notify_others alive_names_set_dead)
  have len: "Suc (length (filter (\<lambda>n. n \<noteq> t) ?al)) = length ?al"
    using alive_names_distinct [OF dist] t by (rule length_filter_remove)
  have nk: "night_kill ?g1 = Some t" by simp
  have first: "\<exists>w aw rest t k' g1 g2.
        filter (\<lambda>(n, a). role a = WOLF \<and> alive a) (agents g) = (w, aw) # rest
      \<and> wolf_night_action aw (get_alive_players g) rnd k = (Some t, k')
      \<and> t \<in> set (get_alive_players g)
      \<and> run_night_action g rnd k now = Inr (g1, k')
      \<and> night_kill g1 = Some t
      \<and> get_alive_players g1 = filter (\<lambda>n. n \<noteq> t) (get_alive_players g)
      \<and> Suc (length (get_alive_players g1)) = length (get_alive_players g)
      \<and> run_night_phase g rnd k = Inr (g2, k')
      \<and> get_alive_players g2 = filter (\<lambda>n. n \<noteq> t) (get_alive_players g)
      \<and> Suc (length (get_alive_players g2)) = length (get_alive_players g)"
    using f d t r1 nk a1 len r2 a2 by (metis (no_types, lifting))
  have ext: "\<forall>ws ws' al j t k'. wolves_decide (agents g) ws al rnd j = Inr (Some t, k') \<longrightarrow>
          wolves_decide (agents g) (ws @ ws') al rnd j = Inr (Some t, k')"
    using wolves_decide_extend by blast
  from first ext show ?thesis by blast
qed

lemma two_wolves_game_ok:
  "distinct (map fst (agents two_wolves_game))"
  "[] \<notin> set (map fst (agents two_wolves_game))"
  "2 \<le> get_wolf_count two_wolves_game"
  "length (get_alive_players two_wolves_game) = 4"
  by (simp_all add: two_wolves_game_def mk_game_def mk_agent_def get_wolf_count_def
      get_alive_players_def)

theorem night_first_wolf_decides_witness:
  "distinct (map fst (agents two_wolves_game))
   \<and> [] \<notin> set (map fst (agents two_wolves_game))
   \<and> 2 \<le> get_wolf_count two_wolves_game
   \<and> (\<exists>g1 k'. run_night_action two_wolves_game vote_rnd 0 [] = Inr (g1, k')
         \<and> length (get_alive_players g1) = 3)"
proof -
  from night_first_wolf_decides [OF two_wolves_game_ok(1,2,3), of vote_rnd 0 "[]"]
  obtain g1 k' where "run_night_action two_wolves_game vote_rnd 0 [] = Inr (g1, k')"
    and "Suc (length (get_alive_players g1)) = length (get_alive_players two_wolves_game)"
    by blast
  then have "run_night_action two_wolves_game vote_rnd 0 [] = Inr (g1, k')
      \<and> length (get_alive_players g1) = 3"
    by (simp add: two_wolves_game_ok(4))
  with two_wolves_game_ok(1,2,3) show ?thesis by blast
qed

section \<open>Vote endpoint\<close>

text \<open>
  C9. \<open>player_vote\<close> answers with a response only when the game's phase is \<open>VOTING\<close> and
  the target is a key of the game's agents. When the phase is another one or the target is
  no such key, it raises an exception of status 400, the games are as before and nothing
  is broadcast. In no case does the call change a game.
\<close>

theorem player_vote_guarded:
  "(fst (player_vote games game_id vote_target now) = Inr r \<longrightarrow>
      (\<exists>game. games game_id = Some game \<and> phase game = VOTING
         \<and> vote_target \<in> set (map fst (agents game))))
   \<and> (games game_id = Some game
        \<and> (phase game \<noteq> VOTING \<or> vote_target \<notin> set (map fst (agents game))) \<longrightarrow>
      (\<exists>e. fst (player_vote games game_id vote_target now) = Inl e \<and> status_code e = 400)
      \<and> snd (player_vote games game_id vote_target now) = (games, []))
   \<and> fst (snd (player_vote games game_id vote_target now)) = games"
  by (auto simp: player_vote_def split: option.splits prod.splits)

theorem player_vote_guarded_witness:
  "fst (player_vote voting_games ''g1'' ''Bob'' []) = Inr ''ok''
   \<and> fst (player_vote voting_games ''g1'' ''Zed'' []) = Inl TargetNotFound
   \<and> fst (player_vote voting_games ''g2'' ''Bob'' []) = Inl NotVotingPhase
   \<and> snd (player_vote voting_games ''g2'' ''Bob'' []) = (voting_games, [])
   \<and> snd (player_vote voting_games ''g1'' ''Zed'' []) = (voting_games, [])"
  using player_vote_guarded [of voting_games "''g1''" "''Bob''" "[]" "''ok''"]
    player_vote_guarded [of voting_games "''g1''" "''Zed''" "[]" "''ok''" "game_running\<lparr>phase := VOTING\<rparr>"]
    player_vote_guarded [of voting_games "''g2''" "''Bob''" "[]" "''ok''" game_running]
  by (simp add: player_vote_def voting_games_def game_running_def mk_game_def mk_agent_def)

section \<open>A new game\<close>

lemma shuffle_loop_mset:
  "i < length x \<Longrightarrow> mset (fst (shuffle_loop i x rb k)) = mset x"
proof (induction i arbitrary: x k)
  case 0
  then show ?case by simp
next
  case (Suc i)
  let ?j = "rb k mod (Suc i + 1)"
  let ?x = "(x[Suc i := x ! ?j])[?j := x ! Suc i]"
  have j: "?j < length x" using Suc.prems by (simp add: less_le_trans [OF mod_less_divisor])
  have sw: "mset ?x = mset x" using j Suc.prems by (rule mset_swap)
  have "i < length ?x" using Suc.prems by simp
  from Suc.IH [OF this, of "k + 1"] sw show ?case by (simp add: Let_def)
qed

lemma shuffled_roles:
  "length (fst (shuffle ([WOLF] @ replicate 4 VILLAGER) rb k)) = 5
   \<and> length (filter (\<lambda>r. r = WOLF) (fst (shuffle ([WOLF] @ replicate 4 VILLAGER) rb k))) = 1"
proof -
  let ?xs = "[WOLF] @ replicate 4 VILLAGER"
  let ?rs = "fst (shuffle ?xs rb k)"
  have m: "mset ?rs = mset ?xs"
    unfolding shuffle_def by (rule shuffle_loop_mset) simp
  from arg_cong [OF m, of size] have len: "length ?rs = 5" by simp
  from arg_cong [OF m, of "\<lambda>M. count M WOLF"] have "count (mset ?rs) WOLF = 1"
    by (simp add: numeral_eq_Suc)
  then have "length (filter ((=) WOLF) ?rs) = 1"
    by (simp add: count_mset count_list_eq_length_filter)
  moreover have "filter ((=) WOLF) ?rs = filter (\<lambda>r. r = WOLF) ?rs"
    by (rule filter_cong) auto
  ultimately show ?thesis using len by simp
qed

lemma init_scores_fields:
  "name (fst (init_scores m a rnd k)) = name a
   \<and> role (fst (init_scores m a rnd k)) = role a
   \<and> is_human (fst (init_scores m a rnd k)) = is_human a
   \<and> alive (fst (init_scores m a rnd k)) = alive a"
  by (induction m arbitrary: a k) simp_all

lemma new_agent_fields:
  "name (fst (new_agent n r p h rnd k)) = n"
  "role (fst (new_agent n r p h rnd k)) = r"
  "is_human (fst (new_agent n r p h rnd k)) = h"
  "alive (fst (new_agent n r p h rnd k)) = True"
  by (simp_all add: new_agent_def init_scores_fields)

lemma dict_set_append: "k \<notin> set (map fst d) \<Longrightarrow> dict_set d k v = d @ [(k, v)]"
  by (induction d k v rule: dict_set.induct) auto

lemma make_agents_summary:
  "distinct (map fst nrs) \<Longrightarrow> set (map fst nrs) \<inter> set (map fst ags) = {} \<Longrightarrow>
     map summary (fst (make_agents i nrs rnd k ags))
       = map summary ags @ map (\<lambda>(n, r). (n, r, False, True)) nrs"
proof (induction nrs arbitrary: i k ags)
  case Nil
  then show ?case by simp
next
  case (Cons nr nrs)
  obtain n r where nr: "nr = (n, r)" by (cases nr)
  let ?p = "if i < length personalities then personalities ! i else ''villager''"
  let ?a = "fst (new_agent n r ?p False rnd k)"
  let ?k = "snd (new_agent n r ?p False rnd k)"
  have fresh: "n \<notin> set (map fst ags)" using Cons.prems nr by auto
  have step: "make_agents i (nr # nrs) rnd k ags = make_agents (i + 1) nrs rnd ?k (ags @ [(n, ?a)])"
    by (simp add: nr Let_def case_prod_unfold dict_set_append [OF fresh])
  have "distinct (map fst nrs)" "set (map fst nrs) \<inter> set (map fst (ags @ [(n, ?a)])) = {}"
    using Cons.prems nr by auto
  from Cons.IH [OF this, of "i + 1" ?k] show ?case
    unfolding step by (simp add: nr summary_def new_agent_fields)
qed

lemma length_5_cases:
  assumes "length rs = 5"
  obtains r0 r1 r2 r3 r4 where "rs = [r0, r1, r2, r3, r4]"
proof -
  from assms obtain r0 t0 where "rs = r0 # t0" "length t0 = 4" by (cases rs) auto
  moreover then obtain r1 t1 where "t0 = r1 # t1" "length t1 = 3" by (cases t0) auto
  moreover then obtain r2 t2 where "t1 = r2 # t2" "length t2 = 2" by (cases t1) auto
  moreover then obtain r3 t3 where "t2 = r3 # t3" "length t3 = 1" by (cases t2) auto
  moreover then obtain r4 where "t3 = [r4]" by (cases t3) auto
  ultimately show ?thesis using that by simp
qed

lemma init_agents_summary:
  "\<exists>r0 r1 r2 r3 r4.
      length (filter (\<lambda>r. r = WOLF) [r0, r1, r2, r3, r4]) = 1
    \<and> map summary (fst (init_agents rb rnd))
        = [(''Alice'', r0, False, True), (''Bob'', r1, False, True), (''Charlie'', r2, False, True),
           (''Diana'', r3, False, True), (''Eve'', r4, False, True),
           (''Player'', VILLAGER, True, True)]"
proof -
  define rs where "rs = fst (shuffle ([WOLF] @ replicate 4 VILLAGER) rb 0)"
  from shuffled_roles [of rb 0] have len: "length rs = 5"
    and one: "length (filter (\<lambda>r. r = WOLF) rs) = 1" unfolding rs_def by blast+
  from len obtain r0 r1 r2 r3 r4 where rs: "rs = [r0, r1, r2, r3, r4]"
    by (rule length_5_cases)
  define nrs where "nrs = zip names rs"
  define m where "m = make_agents 0 nrs rnd 0 []"
  have nrs: "nrs = [(''Alice'', r0), (''Bob'', r1), (''Charlie'', r2), (''Diana'', r3), (''Eve'', r4)]"
    by (simp add: nrs_def rs names_def)
  have "distinct (map fst nrs)" "set (map fst nrs) \<inter> set (map fst ([] :: (string \<times> Agent) list)) = {}"
    by (simp_all add: nrs)
  from make_agents_summary [OF this, of 0 rnd 0]
  have s: "map summary (fst m) = map (\<lambda>(n, r). (n, r, False, True)) nrs" by (simp add: m_def)
  have "map fst (fst m) = map fst (map summary (fst m))"
    by (simp add: summary_def comp_def)
  then have keys: "map fst (fst m) = [''Alice'', ''Bob'', ''Charlie'', ''Diana'', ''Eve'']"
    by (simp add: s nrs)
  have fresh: "''Player'' \<notin> set (map fst (fst m))" by (simp add: keys)
  define h where "h = fst (new_agent ''Player'' VILLAGER ''human'' True rnd (snd m))"
  have "init_agents rb rnd
      = (dict_set (fst m) ''Player'' h, ''Player'')"
    unfolding init_agents_def Let_def case_prod_unfold h_def m_def nrs_def rs_def ..
  then have "fst (init_agents rb rnd) = fst m @ [(''Player'', h)]"
    by (simp add: dict_set_append [OF fresh])
  then have "map summary (fst (init_agents rb rnd))
      = map (\<lambda>(n, r). (n, r, False, True)) nrs @ [(''Player'', VILLAGER, True, True)]"
    by (simp add: s summary_def h_def new_agent_fields)
  with one show ?thesis unfolding nrs rs by auto
qed

lemma filter_summary:
  "map summary (filter (\<lambda>p. Q (summary p)) ags) = filter Q (map summary ags)"
  by (induction ags) auto

lemma summary_eq:
  "summary p = (n, r, h, al) \<Longrightarrow> fst p = n \<and> role (snd p) = r \<and> is_human (snd p) = h \<and> alive (snd p) = al"
  by (simp add: summary_def)

text \<open>
  C10. In every new game, whatever the shuffle draws, the agents are Alice, Bob,
  Charlie, Diana, Eve and Player in this order; the only human agent is Player and its
  role is \<open>VILLAGER\<close>; no wolf is human; exactly one agent is a wolf, so one living wolf
  and five living villagers.
\<close>

theorem human_is_villager:
  "map fst (agents (new_game rb rnd)) = [''Alice'', ''Bob'', ''Charlie'', ''Diana'', ''Eve'', ''Player'']
   \<and> human_player (new_game rb rnd) = ''Player''
   \<and> map (\<lambda>p. (fst p, role (snd p))) (filter (\<lambda>p. is_human (snd p)) (agents (new_game rb rnd)))
       = [(''Player'', VILLAGER)]
   \<and> filter (\<lambda>p. role (snd p) = WOLF \<and> is_human (snd p)) (agents (new_game rb rnd)) = []
   \<and> length (filter (\<lambda>p. role (snd p) = WOLF) (agents (new_game rb rnd))) = 1
   \<and> get_wolf_count (new_game rb rnd) = 1
   \<and> get_villager_count (new_game rb rnd) = 5"
proof -
  define ags where "ags = fst (init_agents rb rnd)"
  have g: "agents (new_game rb rnd) = ags" "human_player (new_game rb rnd) = snd (init_agents rb rnd)"
    by (simp_all add: new_game_def ags_def case_prod_unfold Let_def)
  have hp: "snd (init_agents rb rnd) = ''Player''"
    by (simp add: init_agents_def Let_def case_prod_unfold)
  from init_agents_summary [of rb rnd, folded ags_def] obtain r0 r1 r2 r3 r4 where
    one: "length (filter (\<lambda>r. r = WOLF) [r0, r1, r2, r3, r4]) = 1"
    and s: "map summary ags
        = [(''Alice'', r0, False, True), (''Bob'', r1, False, True), (''Charlie'', r2, False, True),
           (''Diana'', r3, False, True), (''Eve'', r4, False, True),
           (''Player'', VILLAGER, True, True)]"
    by (elim exE conjE)
  from s obtain p0 p1 p2 p3 p4 p5 where ags: "ags = [p0, p1, p2, p3, p4, p5]"
    and p: "summary p0 = (''Alice'', r0, False, True)" "summary p1 = (''Bob'', r1, False, True)"
      "summary p2 = (''Charlie'', r2, False, True)" "summary p3 = (''Diana'', r3, False, True)"
      "summary p4 = (''Eve'', r4, False, True)" "summary p5 = (''Player'', VILLAGER, True, True)"
    by (auto simp: map_eq_Cons_conv)
  note f = p [THEN summary_eq]
  have a: "map fst ags = [''Alice'', ''Bob'', ''Charlie'', ''Diana'', ''Eve'', ''Player'']"
    by (simp add: ags f)
  have b: "map (\<lambda>p. (fst p, role (snd p))) (filter (\<lambda>p. is_human (snd p)) ags)
      = [(''Player'', VILLAGER)]"
    by (simp add: ags f)
  have c: "filter (\<lambda>p. role (snd p) = WOLF \<and> is_human (snd p)) ags = []"
    by (simp add: ags f)
  have d: "length (filter (\<lambda>p. role (snd p) = WOLF) ags) = 1"
    using one by (cases r0; cases r1; cases r2; cases r3; cases r4) (simp_all add: ags f)
  have e: "get_wolf_count (new_game rb rnd) = 1"
    using one unfolding get_wolf_count_def g case_prod_unfold
    by (cases r0; cases r1; cases r2; cases r3; cases r4) (simp_all add: ags f)
  have v: "get_villager_count (new_game rb rnd) = 5"
    using one unfolding get_villager_count_def g case_prod_unfold
    by (cases r0; cases r1; cases r2; cases r3; cases r4) (simp_all add: ags f)
  from a b c d e v hp show ?thesis unfolding g by simp
qed

section \<open>Voting phase\<close>

lemma agents_get_key:
  "n \<in> set (map fst ags) \<Longrightarrow> \<exists>a. agents_get ags n = Inr a \<and> (n, a) \<in> set ags"
proof -
  assume "n \<in> set (map fst ags)"
  then obtain a where "map_of ags n = Some a"
    by (cases "map_of ags n") (auto simp: map_of_eq_None_iff)
  then show ?thesis by (auto simp: agents_get_def dest: map_of_SomeD)
qed

lemma dict_set_targets: "snd ` set (dict_set d k v) \<subseteq> snd ` set d \<union> {v}"
  by (induction d k v rule: dict_set.induct) auto

lemma dict_set_keys: "fst ` set (dict_set d k v) = fst ` set d \<union> {k}"
  by (induction d k v rule: dict_set.induct) auto

lemma tally_keys: "fst ` set (tally votes vc) = fst ` set vc \<union> snd ` set votes"
  by (induction votes vc rule: tally.induct) (auto simp: dict_set_keys)

lemma max_candidates_keys: "set (max_candidates vc) \<subseteq> fst ` set vc"
  by (auto simp: max_candidates_def)

lemma eliminated_of_alt:
  "eliminated_of vc = (case max_candidates vc of [e] \<Rightarrow> Some e | _ \<Rightarrow> None)"
  by (simp add: eliminated_of_def max_candidates_def)

lemma eliminated_of_Some: "(eliminated_of vc = Some e) = (max_candidates vc = [e])"
  by (simp add: eliminated_of_alt split: list.splits)

lemma eliminated_of_None: "(eliminated_of vc = None) = (length (max_candidates vc) \<noteq> 1)"
  by (simp add: eliminated_of_alt split: list.splits)

lemma eliminated_target:
  "eliminated_of (tally votes []) = Some e \<Longrightarrow> e \<in> snd ` set votes"
proof -
  assume "eliminated_of (tally votes []) = Some e"
  then have "e \<in> set (max_candidates (tally votes []))" by (simp add: eliminated_of_Some)
  with max_candidates_keys have "e \<in> fst ` set (tally votes [])" by blast
  then show ?thesis by (simp add: tally_keys)
qed

lemma vote_decision_range:
  "fst (make_vote_decision a al rnd k) \<in> set al \<union> {name a}"
proof (cases "\<exists>p\<in>set al. p \<noteq> name a")
  case True
  from make_vote_decision_other [OF True, of rnd k]
  have "fst (make_vote_decision a al rnd k) \<in> set (candidates a al)" by blast
  then show ?thesis by (simp add: set_candidates)
next
  case False
  then have "fst (make_vote_decision a al rnd k) = name a"
    by (simp add: make_vote_decision_self)
  then show ?thesis by simp
qed

lemma ai_votes_ok:
  assumes "distinct (map fst ags)" "keyed ags" "set al \<subseteq> fst ` set ags"
  shows "set ps \<subseteq> set ags \<Longrightarrow> distinct (map fst ps) \<Longrightarrow>
      fst ` set ps \<inter> fst ` set votes = {} \<Longrightarrow> snd ` set votes \<subseteq> fst ` set ags \<Longrightarrow>
      \<exists>votes' k'. ai_votes ags (map fst ps) al rnd k votes = Inr (votes', k')
        \<and> map fst votes' = map fst votes @ map fst (filter (\<lambda>(n, a). alive a \<and> \<not> is_human a) ps)
        \<and> snd ` set votes' \<subseteq> fst ` set ags"
proof (induction ps arbitrary: k votes)
  case Nil
  then show ?case by simp
next
  case (Cons p ps)
  obtain n a where p: "p = (n, a)" by (cases p)
  from Cons.prems p have mem: "(n, a) \<in> set ags" by simp
  have get: "agents_get ags n = Inr a" using assms(1) mem by (rule agents_get_in)
  have ps: "set ps \<subseteq> set ags" "distinct (map fst ps)" using Cons.prems by simp_all
  have nfresh: "n \<notin> fst ` set ps" using Cons.prems(2) p by (simp add: image_iff)
  show ?case
  proof (cases "alive a \<and> \<not> is_human a")
    case False
    have disj: "fst ` set ps \<inter> fst ` set votes = {}" using Cons.prems(3) by auto
    from False have eq: "ai_votes ags (map fst (p # ps)) al rnd k votes
        = ai_votes ags (map fst ps) al rnd k votes"
      by (auto simp: p get)
    from False have f: "filter (\<lambda>(n, a). alive a \<and> \<not> is_human a) (p # ps)
        = filter (\<lambda>(n, a). alive a \<and> \<not> is_human a) ps"
      by (simp add: p)
    from Cons.IH [OF ps disj Cons.prems(4), of k] show ?thesis unfolding eq f .
  next
    case True
    obtain t k1 where d: "make_vote_decision a al rnd k = (t, k1)"
      by (cases "make_vote_decision a al rnd k")
    have nv: "n \<notin> set (map fst votes)" using Cons.prems(3) p by auto
    have v1: "dict_set votes n t = votes @ [(n, t)]" using nv by (rule dict_set_append)
    have "name a = n" using assms(2) mem by (auto simp: keyed_def)
    with vote_decision_range [of a al rnd k] d have "t \<in> set al \<union> {n}" by simp
    with assms(3) mem have tkey: "t \<in> fst ` set ags" by force
    have disj: "fst ` set ps \<inter> fst ` set (votes @ [(n, t)]) = {}"
      using Cons.prems(3) nfresh by auto
    have tg: "snd ` set (votes @ [(n, t)]) \<subseteq> fst ` set ags"
      using Cons.prems(4) tkey by auto
    from True have eq: "ai_votes ags (map fst (p # ps)) al rnd k votes
        = ai_votes ags (map fst ps) al rnd k1 (votes @ [(n, t)])"
      by (simp add: p get d v1)
    from True have f: "filter (\<lambda>(n, a). alive a \<and> \<not> is_human a) (p # ps)
        = p # filter (\<lambda>(n, a). alive a \<and> \<not> is_human a) ps"
      by (simp add: p)
    from Cons.IH [OF ps disj tg, of k1] show ?thesis unfolding eq f by (simp add: p)
  qed
qed

lemma run_voting_phase_result:
  assumes dist: "distinct (map fst (agents g))" and keyed: "keyed (agents g)"
  shows "\<exists>votes k' g'.
      ai_votes (agents g) (get_alive_players g) (get_alive_players g) rnd k [] = Inr (votes, k')
    \<and> run_voting_phase g rnd k = Inr (g', k')
    \<and> phase g' = NIGHT_ACTION
    \<and> (length (max_candidates (tally votes [])) \<noteq> 1 \<longrightarrow> agents g' = agents g)
    \<and> (\<forall>e. max_candidates (tally votes []) = [e] \<longrightarrow>
          agents g' = set_dead (agents g) e \<and> e \<in> fst ` set (agents g))"
proof -
  let ?ps = "filter (\<lambda>(n, a). alive a) (agents g)"
  let ?al = "get_alive_players g"
  have al: "?al = map fst ?ps" by (simp add: get_alive_players_def)
  have sub: "set ?al \<subseteq> fst ` set (agents g)" by (auto simp: get_alive_players_def)
  have "set ?ps \<subseteq> set (agents g)" "distinct (map fst ?ps)"
    "fst ` set ?ps \<inter> fst ` set ([] :: (string \<times> string) list) = {}"
    "snd ` set ([] :: (string \<times> string) list) \<subseteq> fst ` set (agents g)"
    using dist by (simp_all add: distinct_map_filter)
  from ai_votes_ok [OF dist keyed sub this, of rnd k] obtain votes k' where
    v: "ai_votes (agents g) ?al ?al rnd k [] = Inr (votes, k')"
    and ks: "map fst votes = map fst (filter (\<lambda>(n, a). alive a \<and> \<not> is_human a) ?ps)"
    and tg: "snd ` set votes \<subseteq> fst ` set (agents g)"
    unfolding al by auto
  have "filter (\<lambda>(n, a). alive a \<and> \<not> is_human a) ?ps
      = filter (\<lambda>(n, a). alive a \<and> \<not> is_human a) (agents g)"
    by (auto simp: case_prod_unfold intro: filter_cong)
  with arg_cong [OF ks, of length]
  have len: "length votes = length (filter (\<lambda>(n, a). alive a \<and> \<not> is_human a) (agents g))"
    by simp
  show ?thesis
  proof (cases "eliminated_of (tally votes [])")
    case None
    then have r: "run_voting_phase g rnd k = Inr (g\<lparr>phase := NIGHT_ACTION\<rparr>, k')"
      by (simp add: run_voting_phase_def Let_def v len)
    from None have "length (max_candidates (tally votes [])) \<noteq> 1"
      by (simp add: eliminated_of_None)
    then have "\<forall>e. max_candidates (tally votes []) \<noteq> [e]" by auto
    with v r show ?thesis by auto
  next
    case (Some e)
    then have "e \<in> snd ` set votes" by (rule eliminated_target)
    with tg have ekey: "e \<in> fst ` set (agents g)" by blast
    then have "e \<in> set (map fst (agents g))" by simp
    from agents_get_key [OF this] obtain a where get: "agents_get (agents g) e = Inr a" by blast
    have r: "run_voting_phase g rnd k
        = Inr (g\<lparr>agents := set_dead (agents g) e, phase := NIGHT_ACTION\<rparr>, k')"
      by (simp add: run_voting_phase_def Let_def v len Some get)
    from Some have mc: "max_candidates (tally votes []) = [e]" by (simp add: eliminated_of_Some)
    with v r ekey show ?thesis by auto
  qed
qed

lemma fixed_update_psychology:
  "name (update_psychology a et s t i now) = name a"
  "is_human (update_psychology a et s t i now) = is_human a"
  by (simp_all add: update_psychology_def apply_effect_def Let_def)

lemma static_record_vote: "static (record_vote ags voter t now) = static ags"
  by (induction ags)
    (auto simp: static_def record_vote_def fixed_update_psychology alive_update_psychology)

lemma static_keys: "static a = static b \<Longrightarrow> map fst a = map fst b"
proof -
  assume "static a = static b"
  then have "map fst (static a) = map fst (static b)" by simp
  then show ?thesis by (simp add: static_def comp_def case_prod_unfold)
qed

lemma keyed_static: "keyed ags = (\<forall>(n, nm, al, h)\<in>set (static ags). nm = n)"
  by (auto simp: keyed_def static_def)

lemma static_keyed: "static a = static b \<Longrightarrow> keyed a = keyed b"
  by (simp add: keyed_static)

lemma alive_static:
  "map fst (filter (\<lambda>(n, a). alive a) ags)
     = map fst (filter (\<lambda>(n, nm, al, h). al) (static ags))"
  by (induction ags) (auto simp: static_def)

lemma static_alive:
  "static a = static b \<Longrightarrow>
     map fst (filter (\<lambda>(n, x). alive x) a) = map fst (filter (\<lambda>(n, x). alive x) b)"
  by (simp add: alive_static)

lemma collect_votes_ok:
  assumes keyed0: "keyed ags0" and al: "set al \<subseteq> fst ` set ags0"
  shows "static ags = static ags0 \<Longrightarrow> set ns \<subseteq> fst ` set ags0 \<Longrightarrow>
      snd ` set votes \<subseteq> fst ` set ags0 \<Longrightarrow>
      \<exists>ags' votes' inputs' k'.
        collect_votes ags ns al inputs rnd k now votes = Inr (ags', votes', inputs', k')
        \<and> static ags' = static ags0 \<and> snd ` set votes' \<subseteq> fst ` set ags0"
proof (induction ns arbitrary: ags inputs k votes)
  case Nil
  then show ?case by simp
next
  case (Cons n ns)
  note st = Cons.prems(1)
  have ns: "set ns \<subseteq> fst ` set ags0" using Cons.prems(2) by simp
  note tg = Cons.prems(3)
  have keys: "map fst ags = map fst ags0" using st by (rule static_keys)
  have "n \<in> set (map fst ags)" using Cons.prems(2) keys by simp
  from agents_get_key [OF this] obtain agent where
    get: "agents_get ags n = Inr agent" and mem: "(n, agent) \<in> set ags" by blast
  have "keyed ags" using static_keyed [OF st] keyed0 by simp
  with mem have nm: "name agent = n" by (auto simp: keyed_def)
  have nkey: "n \<in> fst ` set ags0" using Cons.prems(2) by simp
  have rec: "static (record_vote ags n t now) = static ags0" for t
    using st by (simp add: static_record_vote)
  have tgt: "snd ` set (dict_set votes n t) \<subseteq> fst ` set ags0" if "t \<in> fst ` set ags0" for t
    using dict_set_targets [of votes n t] tg that by auto
  show ?case
  proof (cases "alive agent")
    case False
    then have "collect_votes ags (n # ns) al inputs rnd k now votes
        = collect_votes ags ns al inputs rnd k now votes"
      by (simp add: get)
    with Cons.IH [OF st ns tg, of inputs k] show ?thesis by simp
  next
    case True
    show ?thesis
    proof (cases "is_human agent")
      case human: True
      show ?thesis
      proof (cases inputs)
        case Nil
        with True human have "collect_votes ags (n # ns) al inputs rnd k now votes
            = collect_votes ags ns al [] rnd k now votes"
          by (simp add: get)
        with Cons.IH [OF st ns tg, of "[]" k] show ?thesis by simp
      next
        case (Cons inp inputs')
        show ?thesis
        proof (cases inp)
          case None
          with True human Cons have "collect_votes ags (n # ns) al inputs rnd k now votes
              = collect_votes ags ns al inputs' rnd k now votes"
            by (simp add: get)
          with Cons.IH [OF st ns tg, of inputs' k] show ?thesis by simp
        next
          case (Some u)
          show ?thesis
          proof (cases "u \<noteq> [] \<and> u \<in> set al")
            case valid: True
            with True human Cons Some have "collect_votes ags (n # ns) al inputs rnd k now votes
                = collect_votes (record_vote ags n u now) ns al inputs' rnd k now
                    (dict_set votes n u)"
              by (simp add: get)
            moreover have "u \<in> fst ` set ags0" using valid al by blast
            ultimately show ?thesis
              using Cons.IH [OF rec ns tgt, of u u inputs' k] by simp
          next
            case invalid: False
            with True human Cons Some have "collect_votes ags (n # ns) al inputs rnd k now votes
                = collect_votes ags ns al inputs' rnd k now votes"
              by (auto simp: get)
            with Cons.IH [OF st ns tg, of inputs' k] show ?thesis by simp
          qed
        qed
      qed
    next
      case ai: False
      obtain t k1 where d: "make_vote_decision agent al rnd k = (t, k1)"
        by (cases "make_vote_decision agent al rnd k")
      from vote_decision_range [of agent al rnd k] d nm have "t \<in> set al \<union> {n}" by simp
      with al nkey have tkey: "t \<in> fst ` set ags0" by blast
      show ?thesis
      proof (cases "t \<noteq> []")
        case True
        with \<open>alive agent\<close> ai d have "collect_votes ags (n # ns) al inputs rnd k now votes
            = collect_votes (record_vote ags n t now) ns al inputs rnd k1 now (dict_set votes n t)"
          by (simp add: get)
        with Cons.IH [OF rec ns tgt [OF tkey], of t inputs k1] show ?thesis by simp
      next
        case False
        with \<open>alive agent\<close> ai d have "collect_votes ags (n # ns) al inputs rnd k now votes
            = collect_votes ags ns al inputs rnd k1 now votes"
          by (simp add: get)
        with Cons.IH [OF st ns tg, of inputs k1] show ?thesis by simp
      qed
    qed
  qed
qed

lemma run_voting_result:
  assumes dist: "distinct (map fst (agents g))" and keyed: "keyed (agents g)"
  shows "\<exists>ags1 votes inputs' k' g'.
      collect_votes (agents g) (get_alive_players g) (get_alive_players g) inputs rnd k now []
        = Inr (ags1, votes, inputs', k')
    \<and> static ags1 = static (agents g)
    \<and> run_voting g inputs rnd k now = Inr (g', inputs', k')
    \<and> phase g' = phase g
    \<and> (length (max_candidates (tally votes [])) \<noteq> 1 \<longrightarrow> agents g' = ags1)
    \<and> (\<forall>e. max_candidates (tally votes []) = [e] \<longrightarrow>
          agents g' = notify_others (set_dead ags1 e) e ''eliminated'' 0.2 now)"
proof -
  let ?al = "get_alive_players g"
  have sub: "set ?al \<subseteq> fst ` set (agents g)" by (auto simp: get_alive_players_def)
  have "static (agents g) = static (agents g)"
    "snd ` set ([] :: (string \<times> string) list) \<subseteq> fst ` set (agents g)" by simp_all
  from collect_votes_ok [OF keyed sub this(1) sub this(2), of inputs rnd k now]
  obtain ags1 votes inputs' k' where
    c: "collect_votes (agents g) ?al ?al inputs rnd k now [] = Inr (ags1, votes, inputs', k')"
    and st: "static ags1 = static (agents g)"
    and tg: "snd ` set votes \<subseteq> fst ` set (agents g)" by blast
  show ?thesis
  proof (cases "eliminated_of (tally votes [])")
    case None
    then have r: "run_voting g inputs rnd k now = Inr (g\<lparr>agents := ags1\<rparr>, inputs', k')"
      by (simp add: run_voting_def Let_def c)
    from None have "length (max_candidates (tally votes [])) \<noteq> 1"
      by (simp add: eliminated_of_None)
    then have "\<forall>e. max_candidates (tally votes []) \<noteq> [e]" by auto
    with c st r show ?thesis by auto
  next
    case (Some e)
    then have "e \<in> snd ` set votes" by (rule eliminated_target)
    with tg have "e \<in> fst ` set (agents g)" by blast
    then have "e \<in> set (map fst ags1)" using static_keys [OF st] by simp
    from agents_get_key [OF this] obtain a where get: "agents_get ags1 e = Inr a" by blast
    have r: "run_voting g inputs rnd k now
        = Inr (g\<lparr>agents := notify_others (set_dead ags1 e) e ''eliminated'' 0.2 now\<rparr>, inputs', k')"
      by (simp add: run_voting_def Let_def c Some get)
    from Some have mc: "max_candidates (tally votes []) = [e]" by (simp add: eliminated_of_Some)
    with c st r show ?thesis by auto
  qed
qed

text \<open>
  C7, amended. In a game whose agents are stored under their own, distinct names, a voting
  phase always runs to its end. The server's \<open>run_voting_phase\<close> then sets the phase to
  \<open>NIGHT_ACTION\<close>; when the tally has no unique maximum the agents are as before, and a
  unique maximum-vote candidate is removed from the living players. The command-line
  \<open>run_voting\<close> leaves the phase field as it was; when the tally has no unique maximum the
  living players are as before, and a unique maximum-vote candidate is removed from the
  living players and every other living agent gets an \<open>eliminated\<close> event of impact 0.2.
\<close>

theorem voting_phase_outcome:
  assumes dist: "distinct (map fst (agents g))" and keyed: "keyed (agents g)"
  shows "(\<exists>votes k' g'.
        ai_votes (agents g) (get_alive_players g) (get_alive_players g) rnd k [] = Inr (votes, k')
      \<and> run_voting_phase g rnd k = Inr (g', k')
      \<and> phase g' = NIGHT_ACTION
      \<and> (length (max_candidates (tally votes [])) \<noteq> 1 \<longrightarrow> agents g' = agents g)
      \<and> (\<forall>e. max_candidates (tally votes []) = [e] \<longrightarrow>
            get_alive_players g' = filter (\<lambda>n. n \<noteq> e) (get_alive_players g)))
    \<and> (\<exists>ags1 votes inputs' k' g'.
        collect_votes (agents g) (get_alive_players g) (get_alive_players g) inputs rnd k now []
          = Inr (ags1, votes, inputs', k')
      \<and> run_voting g inputs rnd k now = Inr (g', inputs', k')
      \<and> phase g' = phase g
      \<and> (length (max_candidates (tally votes [])) \<noteq> 1 \<longrightarrow>
            agents g' = ags1 \<and> get_alive_players g' = get_alive_players g)
      \<and> (\<forall>e. max_candidates (tally votes []) = [e] \<longrightarrow>
            get_alive_players g' = filter (\<lambda>n. n \<noteq> e) (get_alive_players g)
            \<and> agents g' = map (\<lambda>(m, a). if m \<noteq> e \<and> alive a
                                then (m, update_psychology a ''eliminated'' e e 0.2 now)
                                else (m, a)) (set_dead ags1 e)))"
proof -
  from run_voting_phase_result [OF dist keyed, of rnd k] obtain votes k' g' where
    a: "ai_votes (agents g) (get_alive_players g) (get_alive_players g) rnd k [] = Inr (votes, k')"
      "run_voting_phase g rnd k = Inr (g', k')" "phase g' = NIGHT_ACTION"
      "length (max_candidates (tally votes [])) \<noteq> 1 \<longrightarrow> agents g' = agents g"
      "\<forall>e. max_candidates (tally votes []) = [e] \<longrightarrow> agents g' = set_dead (agents g) e"
    by blast
  have a5: "\<forall>e. max_candidates (tally votes []) = [e] \<longrightarrow>
      get_alive_players g' = filter (\<lambda>n. n \<noteq> e) (get_alive_players g)"
    using a(5) by (simp add: get_alive_players_def alive_names_set_dead)
  from a(1-4) a5 have app: "\<exists>votes k' g'.
        ai_votes (agents g) (get_alive_players g) (get_alive_players g) rnd k [] = Inr (votes, k')
      \<and> run_voting_phase g rnd k = Inr (g', k')
      \<and> phase g' = NIGHT_ACTION
      \<and> (length (max_candidates (tally votes [])) \<noteq> 1 \<longrightarrow> agents g' = agents g)
      \<and> (\<forall>e. max_candidates (tally votes []) = [e] \<longrightarrow>
            get_alive_players g' = filter (\<lambda>n. n \<noteq> e) (get_alive_players g))"
    by blast
  from run_voting_result [OF dist keyed, of inputs rnd k now]
  obtain ags1 votes2 inputs' k2 g2 where
    b: "collect_votes (agents g) (get_alive_players g) (get_alive_players g) inputs rnd k now []
          = Inr (ags1, votes2, inputs', k2)"
      "static ags1 = static (agents g)"
      "run_voting g inputs rnd k now = Inr (g2, inputs', k2)" "phase g2 = phase g"
      "length (max_candidates (tally votes2 [])) \<noteq> 1 \<longrightarrow> agents g2 = ags1"
      "\<forall>e. max_candidates (tally votes2 [])  = [e] \<longrightarrow>
          agents g2 = notify_others (set_dead ags1 e) e ''eliminated'' 0.2 now"
    by blast
  have al1: "map fst (filter (\<lambda>(n, x). alive x) ags1) = get_alive_players g"
    using static_alive [OF b(2)] by (simp add: get_alive_players_def)
  have b5: "length (max_candidates (tally votes2 [])) \<noteq> 1 \<longrightarrow>
      agents g2 = ags1 \<and> get_alive_players g2 = get_alive_players g"
    using b(5) al1 by (simp add: get_alive_players_def)
  have b6: "\<forall>e. max_candidates (tally votes2 []) = [e] \<longrightarrow>
      get_alive_players g2 = filter (\<lambda>n. n \<noteq> e) (get_alive_players g)
      \<and> agents g2 = map (\<lambda>(m, a). if m \<noteq> e \<and> alive a
                          then (m, update_psychology a ''eliminated'' e e 0.2 now)
                          else (m, a)) (set_dead ags1 e)"
  proof (intro allI impI)
    fix e assume "max_candidates (tally votes2 []) = [e]"
    with b(6) have ag: "agents g2 = notify_others (set_dead ags1 e) e ''eliminated'' 0.2 now"
      by blast
    then have "get_alive_players g2 = filter (\<lambda>n. n \<noteq> e) (map fst (filter (\<lambda>(n, x). alive x) ags1))"
      by (simp add: get_alive_players_def alive_names_notify_others alive_names_set_dead)
    with al1 have x: "get_alive_players g2 = filter (\<lambda>n. n \<noteq> e) (get_alive_players g)"
      by simp
    have y: "agents g2 = map (\<lambda>(m, a). if m \<noteq> e \<and> alive a
                          then (m, update_psychology a ''eliminated'' e e 0.2 now)
                          else (m, a)) (set_dead ags1 e)"
      using ag unfolding notify_others_def .
    from x y show "get_alive_players g2 = filter (\<lambda>n. n \<noteq> e) (get_alive_players g)
      \<and> agents g2 = map (\<lambda>(m, a). if m \<noteq> e \<and> alive a
                          then (m, update_psychology a ''eliminated'' e e 0.2 now)
                          else (m, a)) (set_dead ags1 e)"
      by (rule conjI)
  qed
  from b(1,3,4) b5 b6 have eng: "\<exists>ags1 votes inputs' k' g'.
        collect_votes (agents g) (get_alive_players g) (get_alive_players g) inputs rnd k now []
          = Inr (ags1, votes, inputs', k')
      \<and> run_voting g inputs rnd k now = Inr (g', inputs', k')
      \<and> phase g' = phase g
      \<and> (length (max_candidates (tally votes [])) \<noteq> 1 \<longrightarrow>
            agents g' = ags1 \<and> get_alive_players g' = get_alive_players g)
      \<and> (\<forall>e. max_candidates (tally votes []) = [e] \<longrightarrow>
            get_alive_players g' = filter (\<lambda>n. n \<noteq> e) (get_alive_players g)
            \<and> agents g' = map (\<lambda>(m, a). if m \<noteq> e \<and> alive a
                                then (m, update_psychology a ''eliminated'' e e 0.2 now)
                                else (m, a)) (set_dead ags1 e))"
    by blast
  from app eng show ?thesis by (rule conjI)
qed

lemma tie_phase_kept: "map_option phase (result_game (run_voting tie_game [] half_rnd 0 [])) = Some VOTING"
  by code_simp

lemma tie_all_alive: "map_option get_alive_players (result_game (run_voting tie_game [] half_rnd 0 []))
      = Some [''Alice'', ''Bob'', ''Player'']"
  by code_simp

lemma server_eliminates: "map_option get_alive_players (result_game (run_voting_phase vote_game half_rnd 0))
      = Some [''Bob'', ''Charlie'', ''Player'']"
  by code_simp

lemma server_no_event: "map_option event_log (result_game (run_voting_phase vote_game half_rnd 0))
      = Some [(''Alice'', []), (''Bob'', []), (''Charlie'', []), (''Player'', [])]"
  by code_simp

text \<open>
  C7, as stated, fails. In \<open>run_voting\<close> a tie between Alice and Bob leaves the phase at
  \<open>VOTING\<close>, not \<open>NIGHT_ACTION\<close>. In \<open>run_voting_phase\<close> Alice is the unique
  maximum-vote candidate and is eliminated, and no agent's memory log gets an event.
\<close>

theorem voting_phase_counterexample:
  "map_option phase (result_game (run_voting tie_game [] half_rnd 0 [])) = Some VOTING
   \<and> map_option get_alive_players (result_game (run_voting tie_game [] half_rnd 0 []))
       = Some [''Alice'', ''Bob'', ''Player'']
   \<and> map_option get_alive_players (result_game (run_voting_phase vote_game half_rnd 0))
       = Some [''Bob'', ''Charlie'', ''Player'']
   \<and> map_option event_log (result_game (run_voting_phase vote_game half_rnd 0))
       = Some [(''Alice'', []), (''Bob'', []), (''Charlie'', []), (''Player'', [])]"
  using tie_phase_kept tie_all_alive server_eliminates server_no_event by blast

lemma vote_game_ok: "distinct (map fst (agents vote_game))" "keyed (agents vote_game)"
  "distinct (map fst (agents tie_game))" "keyed (agents tie_game)"
  by (simp_all add: vote_game_def tie_game_def game_running_def mk_game_def mk_agent_def keyed_def)

lemma vote_game_votes:
  "ai_votes (agents vote_game) (get_alive_players vote_game) (get_alive_players vote_game)
      half_rnd 0 [] = Inr ([(''Alice'', ''Bob''), (''Bob'', ''Alice''), (''Charlie'', ''Alice'')], 9)"
  by code_simp

lemma vote_game_max:
  "max_candidates (tally [(''Alice'', ''Bob''), (''Bob'', ''Alice''), (''Charlie'', ''Alice'')] [])
     = [''Alice'']"
  by code_simp

lemma vote_game_alive:
  "filter (\<lambda>n. n \<noteq> ''Alice'') (get_alive_players vote_game) = [''Bob'', ''Charlie'', ''Player'']"
  by code_simp

lemma tie_game_votes:
  "ai_votes (agents tie_game) (get_alive_players tie_game) (get_alive_players tie_game)
      half_rnd 0 [] = Inr ([(''Alice'', ''Bob''), (''Bob'', ''Alice'')], 4)"
  by code_simp

lemma tie_game_max:
  "max_candidates (tally [(''Alice'', ''Bob''), (''Bob'', ''Alice'')] []) = [''Bob'', ''Alice'']"
  by code_simp

theorem voting_phase_outcome_witness:
  "distinct (map fst (agents vote_game)) \<and> keyed (agents vote_game)
   \<and> max_candidates (tally [(''Alice'', ''Bob''), (''Bob'', ''Alice''), (''Charlie'', ''Alice'')] [])
       = [''Alice'']
   \<and> (\<exists>g' k'. run_voting_phase vote_game half_rnd 0 = Inr (g', k') \<and> phase g' = NIGHT_ACTION
         \<and> get_alive_players g' = [''Bob'', ''Charlie'', ''Player''])
   \<and> distinct (map fst (agents tie_game)) \<and> keyed (agents tie_game)
   \<and> length (max_candidates (tally [(''Alice'', ''Bob''), (''Bob'', ''Alice'')] [])) \<noteq> 1
   \<and> (\<exists>g' k'. run_voting_phase tie_game half_rnd 0 = Inr (g', k') \<and> phase g' = NIGHT_ACTION
         \<and> agents g' = agents tie_game)"
proof -
  from voting_phase_outcome [OF vote_game_ok(1,2), of half_rnd 0 "[]" "[]"]
  obtain votes k' g' where
    "ai_votes (agents vote_game) (get_alive_players vote_game) (get_alive_players vote_game)
        half_rnd 0 [] = Inr (votes, k')"
    and r: "run_voting_phase vote_game half_rnd 0 = Inr (g', k')" "phase g' = NIGHT_ACTION"
    and u: "\<forall>e. max_candidates (tally votes []) = [e] \<longrightarrow>
        get_alive_players g' = filter (\<lambda>n. n \<noteq> e) (get_alive_players vote_game)"
    by blast
  then have "votes = [(''Alice'', ''Bob''), (''Bob'', ''Alice''), (''Charlie'', ''Alice'')]"
    by (simp add: vote_game_votes)
  with u vote_game_max vote_game_alive
  have "get_alive_players g' = [''Bob'', ''Charlie'', ''Player'']" by simp
  with r have first: "\<exists>g' k'. run_voting_phase vote_game half_rnd 0 = Inr (g', k')
      \<and> phase g' = NIGHT_ACTION \<and> get_alive_players g' = [''Bob'', ''Charlie'', ''Player'']"
    by blast
  from voting_phase_outcome [OF vote_game_ok(3,4), of half_rnd 0 "[]" "[]"]
  obtain votes2 k2 g2 where
    "ai_votes (agents tie_game) (get_alive_players tie_game) (get_alive_players tie_game)
        half_rnd 0 [] = Inr (votes2, k2)"
    and r2: "run_voting_phase tie_game half_rnd 0 = Inr (g2, k2)" "phase g2 = NIGHT_ACTION"
    and u2: "length (max_candidates (tally votes2 [])) \<noteq> 1 \<longrightarrow> agents g2 = agents tie_game"
    by blast
  then have "votes2 = [(''Alice'', ''Bob''), (''Bob'', ''Alice'')]"
    by (simp add: tie_game_votes)
  with u2 tie_game_max have "agents g2 = agents tie_game" by simp
  with r2 have second: "\<exists>g' k'. run_voting_phase tie_game half_rnd 0 = Inr (g', k')
      \<and> phase g' = NIGHT_ACTION \<and> agents g' = agents tie_game"
    by blast
  have len: "length (max_candidates (tally [(''Alice'', ''Bob''), (''Bob'', ''Alice'')] [])) \<noteq> 1"
    by (subst tie_game_max) simp
  from vote_game_ok vote_game_max first second len show ?thesis by blast
qed

end
